theory Spec2Isabelle
  imports Main "HOL-Library.Sublist"
begin

section \<open>Python strings\<close>

text \<open>
  A Python \<open>str\<close> is a sequence of Unicode code points; slicing, \<open>startswith\<close>,
  \<open>split\<close> and \<open>strip\<close> all count code points. A string is therefore modelled as
  the list of its code points, and \<open>py ''...''\<close> writes an ASCII literal.
\<close>

type_synonym pystr = "nat list"

abbreviation py :: "string \<Rightarrow> pystr" where
  "py s \<equiv> map of_char s"

text \<open>
  An exception is its class and its message \<open>str(e)\<close>. Every \<open>raise\<close> of the code is
  a left injection in the model; a handler is a case distinction on it.
\<close>

datatype exn_class =
  IndexError | ValueError | TypeError | UnboundLocalError | JSONDecodeError | RecursionError
  | KeyboardInterrupt | OtherException

type_synonym exn = "exn_class \<times> pystr"

definition bind_exn :: "exn + 'a \<Rightarrow> ('a \<Rightarrow> exn + 'b) \<Rightarrow> exn + 'b" where
  "bind_exn m f = (case m of Inl e \<Rightarrow> Inl e | Inr x \<Rightarrow> f x)"

text \<open>\<open>str.isspace\<close> on one code point: the characters \<open>str.strip()\<close> removes.\<close>

definition isspace :: "nat \<Rightarrow> bool" where
  "isspace c \<longleftrightarrow>
     (0x09 \<le> c \<and> c \<le> 0x0D) \<or> (0x1C \<le> c \<and> c \<le> 0x20) \<or> c = 0x85 \<or> c = 0xA0 \<or>
     c = 0x1680 \<or> (0x2000 \<le> c \<and> c \<le> 0x200A) \<or> c = 0x2028 \<or> c = 0x2029 \<or>
     c = 0x202F \<or> c = 0x205F \<or> c = 0x3000"

text \<open>\<open>s.strip()\<close> and \<open>s.strip(chars)\<close>: drop the matching characters at both ends.\<close>

definition strip_by :: "(nat \<Rightarrow> bool) \<Rightarrow> pystr \<Rightarrow> pystr" where
  "strip_by P s = rev (dropWhile P (rev (dropWhile P s)))"

definition py_strip :: "pystr \<Rightarrow> pystr" where
  "py_strip s = strip_by isspace s"

definition py_strip_chars :: "pystr \<Rightarrow> pystr \<Rightarrow> pystr" where
  "py_strip_chars chars s = strip_by (\<lambda>c. c \<in> set chars) s"

text \<open>\<open>s.startswith(p)\<close> and \<open>p in s\<close>.\<close>

definition startswith :: "pystr \<Rightarrow> pystr \<Rightarrow> bool" where
  "startswith s p \<longleftrightarrow> prefix p s"

definition py_in :: "pystr \<Rightarrow> pystr \<Rightarrow> bool" where
  "py_in p s \<longleftrightarrow> sublist p s"

text \<open>
  \<open>s[i:j]\<close> with Python's rules: a negative index counts from the end, both indices are
  clamped to \<open>0..len(s)\<close>, and the slice is empty when the start is not below the stop.
\<close>

definition slice_index :: "nat \<Rightarrow> int \<Rightarrow> nat" where
  "slice_index n i = (if i < 0 then nat (int n + i) else min n (nat i))"

definition py_slice :: "pystr \<Rightarrow> int \<Rightarrow> int \<Rightarrow> pystr" where
  "py_slice s i j =
     (let lo = slice_index (length s) i; hi = slice_index (length s) j
      in take (hi - lo) (drop lo s))"

text \<open>
  \<open>s.split(sep)\<close>: cut at every occurrence of \<open>sep\<close>, scanning from the left; an empty
  separator raises \<open>ValueError\<close>. \<open>cur\<close> is the piece being collected.
\<close>

function split_from :: "pystr \<Rightarrow> pystr \<Rightarrow> pystr \<Rightarrow> pystr list" where
  "split_from sep cur [] = [cur]"
| "split_from sep cur (c # s) =
     (if sep \<noteq> [] \<and> prefix sep (c # s)
      then cur # split_from sep [] (drop (length sep) (c # s))
      else split_from sep (cur @ [c]) s)"
  by pat_completeness auto
termination
  by (relation "measure (\<lambda>(sep, cur, s). length s)") (auto simp: neq_Nil_conv)

definition py_split :: "pystr \<Rightarrow> pystr \<Rightarrow> exn + pystr list" where
  "py_split s sep =
     (if sep = [] then Inl (ValueError, py ''empty separator'') else Inr (split_from sep [] s))"

text \<open>\<open>xs[i]\<close> for a non-negative \<open>i\<close>: \<open>IndexError\<close> out of range.\<close>

definition py_nth :: "'a list \<Rightarrow> nat \<Rightarrow> exn + 'a" where
  "py_nth xs i =
     (if i < length xs then Inr (xs ! i) else Inl (IndexError, py ''list index out of range''))"

text \<open>
  \<open>s.index(c)\<close> and \<open>s.rindex(c)\<close> for a one-character needle: the first and the last
  position of \<open>c\<close>, \<open>ValueError\<close> when it does not occur.
\<close>

fun first_index :: "pystr \<Rightarrow> nat \<Rightarrow> nat option" where
  "first_index [] c = None"
| "first_index (x # s) c = (if x = c then Some 0 else map_option Suc (first_index s c))"

definition py_index :: "pystr \<Rightarrow> nat \<Rightarrow> exn + nat" where
  "py_index s c =
     (case first_index s c of
        None \<Rightarrow> Inl (ValueError, py ''substring not found'')
      | Some i \<Rightarrow> Inr i)"

definition py_rindex :: "pystr \<Rightarrow> nat \<Rightarrow> exn + nat" where
  "py_rindex s c =
     (case first_index (rev s) c of
        None \<Rightarrow> Inl (ValueError, py ''substring not found'')
      | Some i \<Rightarrow> Inr (length s - 1 - i))"

section \<open>The JSON decoder of the standard library\<close>

text \<open>
  Every variant hands its candidate text to \<open>json.loads\<close>. The decoder is the standard
  library's, not the repository's; it is modelled here by the grammar it accepts (RFC 8259
  plus the three words \<open>NaN\<close>, \<open>Infinity\<close> and \<open>-Infinity\<close>, strict mode), so that
  the literal inputs of the specification can be run. A decoded value is one of Python's
  \<open>None\<close>, \<open>bool\<close>, \<open>int\<close>, \<open>float\<close>, \<open>str\<close>, \<open>list\<close> and \<open>dict\<close>. A float is
  kept as the numeral it was read from: floating-point arithmetic is outside the model.
  A \<open>dict\<close> is an association list with distinct keys in insertion order.

  The decoder does not always fail with \<open>JSONDecodeError\<close>. The interpreter stops it at
  two limits, the recursion depth and the number of digits of an integer, and then it
  raises \<open>RecursionError\<close> or \<open>ValueError\<close>. Where these limits lie depends on the
  interpreter the scripts run in, so the grammar below knows none: for a text it accepts it
  gives the value that the decoder returns when no limit stops it, and on a text it rejects
  the decoder raises one of the three exceptions, whichever its scan meets first. Only
  \<open>new_gradio.py\<close> tells them apart; there the exception is a parameter.
\<close>

datatype json =
    JNull
  | JBool bool
  | JInt int
  | JFloat pystr
  | JStr pystr
  | JArr "json list"
  | JObj "(pystr \<times> json) list"

text \<open>\<open>d[k] = v\<close> on a \<open>dict\<close>: an existing key keeps its position, a new one goes last.\<close>

fun dict_set :: "(pystr \<times> json) list \<Rightarrow> pystr \<Rightarrow> json \<Rightarrow> (pystr \<times> json) list" where
  "dict_set [] k v = [(k, v)]"
| "dict_set ((k', v') # d) k v = (if k' = k then (k, v) # d else (k', v') # dict_set d k v)"

datatype token =
    TLBrace | TRBrace | TLBracket | TRBracket | TColon | TComma
  | TStr pystr | TInt int | TFloat pystr | TTrue | TFalse | TNull

definition json_ws :: "nat \<Rightarrow> bool" where
  "json_ws c \<longleftrightarrow> c = 0x20 \<or> c = 0x09 \<or> c = 0x0A \<or> c = 0x0D"

definition is_digit :: "nat \<Rightarrow> bool" where
  "is_digit c \<longleftrightarrow> 0x30 \<le> c \<and> c \<le> 0x39"

definition hex_val :: "nat \<Rightarrow> nat option" where
  "hex_val c =
     (if 0x30 \<le> c \<and> c \<le> 0x39 then Some (c - 0x30)
      else if 0x61 \<le> c \<and> c \<le> 0x66 then Some (c - 0x61 + 10)
      else if 0x41 \<le> c \<and> c \<le> 0x46 then Some (c - 0x41 + 10)
      else None)"

text \<open>The four hexadecimal digits after \<open>\u\<close>.\<close>

definition decode_uXXXX :: "pystr \<Rightarrow> nat option" where
  "decode_uXXXX s =
     (case s of
        a # b # c # d # _ \<Rightarrow>
          (case (hex_val a, hex_val b, hex_val c, hex_val d) of
             (Some w, Some x, Some y, Some z) \<Rightarrow> Some (((w * 16 + x) * 16 + y) * 16 + z)
           | _ \<Rightarrow> None)
      | _ \<Rightarrow> None)"

text \<open>The one-character escapes.\<close>

definition backslash :: "nat \<Rightarrow> nat option" where
  "backslash e =
     (if e = 0x22 then Some 0x22 else if e = 0x5C then Some 0x5C
      else if e = 0x2F then Some 0x2F else if e = 0x62 then Some 0x08
      else if e = 0x66 then Some 0x0C else if e = 0x6E then Some 0x0A
      else if e = 0x72 then Some 0x0D else if e = 0x74 then Some 0x09
      else None)"

text \<open>
  \<open>scanstring\<close>, entered after the opening quote: the decoded string and the text after
  the closing quote. A raw control character, an unknown escape and a missing closing
  quote are errors. An escaped high surrogate directly followed by an escaped low surrogate
  is one code point.
\<close>

fun scanstring :: "pystr \<Rightarrow> pystr \<Rightarrow> (pystr \<times> pystr) option" where
  "scanstring acc [] = None"
| "scanstring acc (c # s) =
     (if c = 0x22 then Some (acc, s)
      else if c = 0x5C then
        (case s of
           [] \<Rightarrow> None
         | e # s' \<Rightarrow>
             if e = 0x75 then
               (case decode_uXXXX s' of
                  None \<Rightarrow> None
                | Some uni \<Rightarrow>
                    if 0xD800 \<le> uni \<and> uni \<le> 0xDBFF \<and> take 2 (drop 4 s') = [0x5C, 0x75] then
                      (case decode_uXXXX (drop 6 s') of
                         None \<Rightarrow> None
                       | Some uni2 \<Rightarrow>
                           if 0xDC00 \<le> uni2 \<and> uni2 \<le> 0xDFFF
                           then scanstring
                                  (acc @ [0x10000 + (uni - 0xD800) * 1024 + (uni2 - 0xDC00)])
                                  (drop 10 s')
                           else scanstring (acc @ [uni]) (drop 4 s'))
                    else scanstring (acc @ [uni]) (drop 4 s'))
             else
               (case backslash e of
                  None \<Rightarrow> None
                | Some ch \<Rightarrow> scanstring (acc @ [ch]) s'))
      else if c < 0x20 then None
      else scanstring (acc @ [c]) s)"

text \<open>
  A number, by the decoder's pattern \<open>-?(0|[1-9][0-9]*)(\.[0-9]+)?([eE][-+]?[0-9]+)?\<close>:
  the length of each of the three groups at the head of the text (\<open>None\<close>: the integer
  group does not match).
\<close>

definition int_part_len :: "pystr \<Rightarrow> nat option" where
  "int_part_len s =
     (let m = (if take 1 s = [0x2D] then 1 else 0); t = drop m s
      in case t of
           [] \<Rightarrow> None
         | d # _ \<Rightarrow>
             if d = 0x30 then Some (m + 1)
             else if is_digit d then Some (m + length (takeWhile is_digit t))
             else None)"

definition frac_len :: "pystr \<Rightarrow> nat" where
  "frac_len s =
     (case s of
        d # t \<Rightarrow> if d = 0x2E \<and> takeWhile is_digit t \<noteq> [] then 1 + length (takeWhile is_digit t) else 0
      | [] \<Rightarrow> 0)"

definition exp_len :: "pystr \<Rightarrow> nat" where
  "exp_len s =
     (case s of
        e # t \<Rightarrow>
          if e = 0x65 \<or> e = 0x45 then
            (let m = (if take 1 t = [0x2B] \<or> take 1 t = [0x2D] then 1 else 0);
                 ds = takeWhile is_digit (drop m t)
             in if ds \<noteq> [] then 1 + m + length ds else 0)
          else 0
      | [] \<Rightarrow> 0)"

text \<open>\<open>int(s)\<close> on an optional minus sign followed by decimal digits.\<close>

definition digits_val :: "pystr \<Rightarrow> nat" where
  "digits_val ds = foldl (\<lambda>n d. 10 * n + (d - 0x30)) 0 ds"

definition int_of_lexeme :: "pystr \<Rightarrow> int" where
  "int_of_lexeme s =
     (if take 1 s = [0x2D] then - int (digits_val (drop 1 s)) else int (digits_val s))"

definition scan_number :: "pystr \<Rightarrow> (token \<times> pystr) option" where
  "scan_number s =
     (case int_part_len s of
        None \<Rightarrow> None
      | Some n \<Rightarrow>
          (let f = frac_len (drop n s); e = exp_len (drop (n + f) s)
           in if f = 0 \<and> e = 0 then Some (TInt (int_of_lexeme (take n s)), drop n s)
              else Some (TFloat (take (n + f + e) s), drop (n + f + e) s)))"

text \<open>
  The words the decoder knows, tried in its order: \<open>null\<close>, \<open>true\<close>, \<open>false\<close>, then a
  number, then \<open>NaN\<close>, \<open>Infinity\<close>, \<open>-Infinity\<close>.
\<close>

definition scan_word :: "pystr \<Rightarrow> (token \<times> pystr) option" where
  "scan_word s =
     (if startswith s (py ''null'') then Some (TNull, drop 4 s)
      else if startswith s (py ''true'') then Some (TTrue, drop 4 s)
      else if startswith s (py ''false'') then Some (TFalse, drop 5 s)
      else case scan_number s of
             Some r \<Rightarrow> Some r
           | None \<Rightarrow>
               if startswith s (py ''NaN'') then Some (TFloat (py ''NaN''), drop 3 s)
               else if startswith s (py ''Infinity'') then Some (TFloat (py ''Infinity''), drop 8 s)
               else if startswith s (py ''-Infinity'') then Some (TFloat (py ''-Infinity''), drop 9 s)
               else None)"

text \<open>One token at the head of a text that does not start with white space.\<close>

definition scan_token :: "pystr \<Rightarrow> (token \<times> pystr) option" where
  "scan_token s =
     (case s of
        [] \<Rightarrow> None
      | c # t \<Rightarrow>
          if c = 0x7B then Some (TLBrace, t)
          else if c = 0x7D then Some (TRBrace, t)
          else if c = 0x5B then Some (TLBracket, t)
          else if c = 0x5D then Some (TRBracket, t)
          else if c = 0x3A then Some (TColon, t)
          else if c = 0x2C then Some (TComma, t)
          else if c = 0x22 then map_option (\<lambda>(str, r). (TStr str, r)) (scanstring [] t)
          else scan_word s)"

text \<open>The whole text as tokens, white space between tokens skipped.\<close>

lemma scanstring_shorter: "scanstring acc s = Some (str, r) \<Longrightarrow> length r < length s"
proof (induction acc s rule: scanstring.induct)
  case (1 acc)
  then show ?case by simp
next
  case (2 acc c s)
  show ?case
  proof (cases "c = 0x22")
    case True
    with 2(6) show ?thesis by simp
  next
    case q: False
    show ?thesis
    proof (cases "c = 0x5C")
      case False
      with q 2(5,6) show ?thesis by (fastforce split: if_splits)
    next
      case b: True
      then obtain e s' where s: "s = e # s'" using q 2(6) by (cases s) auto
      show ?thesis
      proof (cases "e = 0x75")
        case False
        with q b s 2(4,6) show ?thesis by (fastforce split: option.splits)
      next
        case u: True
        then obtain uni where d: "decode_uXXXX s' = Some uni"
          using q b s 2(6) by (auto split: option.splits)
        show ?thesis
          using q b s u d 2(1,2,3)[OF q b s u d] 2(6)
          by (fastforce split: option.splits if_splits)
      qed
    qed
  qed
qed

lemma int_part_len_pos: "int_part_len s = Some n \<Longrightarrow> 0 < n \<and> s \<noteq> []"
  by (cases s) (auto simp: int_part_len_def Let_def split: list.splits if_splits)

lemma scan_number_shorter: "scan_number s = Some (t, r) \<Longrightarrow> length r < length s"
proof -
  assume a: "scan_number s = Some (t, r)"
  then obtain n where n: "int_part_len s = Some n"
    by (auto simp: scan_number_def split: option.splits)
  from a n obtain k where "r = drop k s" "n \<le> k"
    by (auto simp: scan_number_def Let_def split: if_splits)
  with int_part_len_pos[OF n] show ?thesis by (cases s) auto
qed

lemma scan_word_shorter: "scan_word s = Some (t, r) \<Longrightarrow> length r < length s"
  by (auto simp: scan_word_def startswith_def prefix_def
           dest: scan_number_shorter split: option.splits if_splits)

lemma scan_token_shorter: "scan_token s = Some (t, r) \<Longrightarrow> length r < length s"
  by (auto simp: scan_token_def dest: scan_word_shorter scanstring_shorter
           split: list.splits if_splits)

function tokens :: "pystr \<Rightarrow> token list option" where
  "tokens [] = Some []"
| "tokens (c # s) =
     (if json_ws c then tokens s
      else case scan_token (c # s) of
             None \<Rightarrow> None
           | Some (t, r) \<Rightarrow> map_option ((#) t) (tokens r))"
  by pat_completeness auto
termination
  by (relation "measure length") (auto dest: scan_token_shorter)

text \<open>
  The grammar over tokens. \<open>parse_array\<close> and \<open>parse_object\<close> are entered where an element
  or a key is due, with what has been read so far. Each value read shortens the text; the
  test on the lengths says so where the recursion continues behind it.
\<close>

function (sequential) parse_value :: "token list \<Rightarrow> (json \<times> token list) option"
  and parse_array :: "json list \<Rightarrow> token list \<Rightarrow> (json \<times> token list) option"
  and parse_object :: "(pystr \<times> json) list \<Rightarrow> token list \<Rightarrow> (json \<times> token list) option"
where
  "parse_value [] = None"
| "parse_value (TNull # ts) = Some (JNull, ts)"
| "parse_value (TTrue # ts) = Some (JBool True, ts)"
| "parse_value (TFalse # ts) = Some (JBool False, ts)"
| "parse_value (TInt i # ts) = Some (JInt i, ts)"
| "parse_value (TFloat x # ts) = Some (JFloat x, ts)"
| "parse_value (TStr s # ts) = Some (JStr s, ts)"
| "parse_value (TLBracket # TRBracket # ts) = Some (JArr [], ts)"
| "parse_value (TLBracket # ts) = parse_array [] ts"
| "parse_value (TLBrace # TRBrace # ts) = Some (JObj [], ts)"
| "parse_value (TLBrace # ts) = parse_object [] ts"
| "parse_value (_ # ts) = None"
| "parse_array acc ts =
     (case parse_value ts of
        None \<Rightarrow> None
      | Some (v, r) \<Rightarrow>
          if length r < length ts then
            (case r of
               TComma # r' \<Rightarrow> parse_array (acc @ [v]) r'
             | TRBracket # r' \<Rightarrow> Some (JArr (acc @ [v]), r')
             | _ \<Rightarrow> None)
          else None)"
| "parse_object acc (TStr k # TColon # ts) =
     (case parse_value ts of
        None \<Rightarrow> None
      | Some (v, r) \<Rightarrow>
          if length r < length ts then
            (case r of
               TComma # r' \<Rightarrow> parse_object (dict_set acc k v) r'
             | TRBrace # r' \<Rightarrow> Some (JObj (dict_set acc k v), r')
             | _ \<Rightarrow> None)
          else None)"
| "parse_object acc _ = None"
  by pat_completeness auto
termination
  by (relation "measure (\<lambda>x. case x of
         Inl ts \<Rightarrow> 2 * length ts
       | Inr (Inl (acc, ts)) \<Rightarrow> 2 * length ts + 1
       | Inr (Inr (acc, ts)) \<Rightarrow> 2 * length ts + 1)") auto

text \<open>
  \<open>json.loads\<close>: one value, with nothing but white space around it. \<open>None\<close>: the text
  is rejected, and the decoder raises.
\<close>

definition json_loads :: "pystr \<Rightarrow> json option" where
  "json_loads s =
     (case tokens s of
        None \<Rightarrow> None
      | Some ts \<Rightarrow>
          (case parse_value ts of
             Some (v, []) \<Rightarrow> Some v
           | _ \<Rightarrow> None))"

section \<open>The web-form variants of \<open>parse_business_card\<close>\<close>

text \<open>
  Four files define \<open>parse_business_card\<close>; each definition below carries its file's name.
  The image encoder, the OCR engine and the inference backend are outside the repository:
  each is a parameter that yields its result or the message of the exception it raises.
  A call log records which of them a run has used. What a run prints is not modelled.
\<close>

datatype call = EncodeImage | RunOCR | Inference

definition error_dict :: "pystr \<Rightarrow> json" where
  "error_dict msg = JObj [(py ''error'', JStr msg)]"

subsection \<open>\<open>gradio_app.py\<close>\<close>

text \<open>
  The model's reply, stripped, and cut to \<open>json_text[7:-3].strip()\<close> when it starts with
  the fence \<open>```json\<close>.
\<close>

definition gradio_app_json_text :: "pystr \<Rightarrow> pystr" where
  "gradio_app_json_text content =
     (let json_text = py_strip content
      in if startswith json_text (py ''```json'') then py_strip (py_slice json_text 7 (- 3))
         else json_text)"

text \<open>Step 4: \<open>json.loads\<close>, and the failure value when it raises.\<close>

definition gradio_app_parsed_data :: "pystr \<Rightarrow> json" where
  "gradio_app_parsed_data json_text =
     (case json_loads json_text of
        Some parsed_data \<Rightarrow> parsed_data
      | None \<Rightarrow>
          JObj [(py ''error'', JStr (py ''Failed to parse VLM output as JSON.'')),
                (py ''raw_output'', JStr json_text)])"

definition gradio_app_parse_business_card ::
  "bool \<Rightarrow> bool \<Rightarrow> ('img \<Rightarrow> pystr + pystr) \<Rightarrow> (pystr \<Rightarrow> pystr + pystr) \<Rightarrow> 'img option
     \<Rightarrow> call list \<times> json" where
  "gradio_app_parse_business_card llm_is_None chat_handler_is_None image_to_data_uri
       create_chat_completion pil_image =
     (if llm_is_None \<or> chat_handler_is_None
      then ([], error_dict (py ''VLM model is not loaded. Check server logs.''))
      else case pil_image of
             None \<Rightarrow> ([], error_dict (py ''Please upload an image.''))
           | Some img \<Rightarrow>
               (case image_to_data_uri img of
                  Inl e \<Rightarrow> ([EncodeImage], error_dict (py ''Failed to process image: '' @ e))
                | Inr image_uri \<Rightarrow>
                    (case create_chat_completion image_uri of
                       Inl e \<Rightarrow>
                         ([EncodeImage, Inference], error_dict (py ''VLM inference failed: '' @ e))
                     | Inr content \<Rightarrow>
                         ([EncodeImage, Inference],
                          gradio_app_parsed_data (gradio_app_json_text content)))))"

text \<open>
  The script itself: where the model or its chat handler is missing it reports so and
  launches nothing; otherwise it launches the form, whose uploads go to
  \<open>parse_business_card\<close>. The result is the function the form calls, if there is a form.
\<close>

definition gradio_app_main ::
  "bool \<Rightarrow> bool \<Rightarrow> ('img \<Rightarrow> pystr + pystr) \<Rightarrow> (pystr \<Rightarrow> pystr + pystr)
     \<Rightarrow> ('img option \<Rightarrow> call list \<times> json) option" where
  "gradio_app_main llm_is_None chat_handler_is_None image_to_data_uri create_chat_completion =
     (if llm_is_None \<or> chat_handler_is_None then None
      else Some (gradio_app_parse_business_card llm_is_None chat_handler_is_None
                   image_to_data_uri create_chat_completion))"

subsection \<open>\<open>ollama_Gradio.py\<close>\<close>

definition ollama_Gradio_json_text :: "pystr \<Rightarrow> pystr" where
  "ollama_Gradio_json_text content =
     (let json_text = py_strip content
      in if startswith json_text (py ''```json'') then py_strip (py_slice json_text 7 (- 3))
         else json_text)"

definition ollama_Gradio_parsed :: "pystr \<Rightarrow> json" where
  "ollama_Gradio_parsed json_text =
     (case json_loads json_text of
        Some parsed \<Rightarrow> parsed
      | None \<Rightarrow>
          JObj [(py ''error'', JStr (py ''Failed to parse model output as JSON.'')),
                (py ''raw_output'', JStr json_text)])"

definition ollama_Gradio_parse_business_card ::
  "('img \<Rightarrow> pystr + pystr) \<Rightarrow> (pystr \<Rightarrow> pystr + pystr) \<Rightarrow> 'img option \<Rightarrow> call list \<times> json" where
  "ollama_Gradio_parse_business_card image_to_base64 chat pil_image =
     (case pil_image of
        None \<Rightarrow> ([], error_dict (py ''Please upload an image.''))
      | Some img \<Rightarrow>
          (case image_to_base64 img of
             Inl e \<Rightarrow> ([EncodeImage], error_dict (py ''Failed to process image: '' @ e))
           | Inr img_b64 \<Rightarrow>
               (case chat img_b64 of
                  Inl e \<Rightarrow>
                    ([EncodeImage, Inference], error_dict (py ''Ollama inference failed: '' @ e))
                | Inr content \<Rightarrow>
                    ([EncodeImage, Inference],
                     ollama_Gradio_parsed (ollama_Gradio_json_text content)))))"

subsection \<open>\<open>ollama_moondream.py\<close>\<close>

text \<open>As above, and a reply that starts with any other backquote loses the backquotes,
  blanks and newlines at both ends.\<close>

definition ollama_moondream_json_text :: "pystr \<Rightarrow> pystr" where
  "ollama_moondream_json_text content =
     (let json_text = py_strip content
      in if startswith json_text (py ''```json'') then py_strip (py_slice json_text 7 (- 3))
         else if startswith json_text (py ''`'') then py_strip_chars (py ''` '' @ [0x0A]) json_text
         else json_text)"

definition ollama_moondream_parsed_data :: "pystr \<Rightarrow> json" where
  "ollama_moondream_parsed_data json_text =
     (case json_loads json_text of
        Some parsed_data \<Rightarrow> parsed_data
      | None \<Rightarrow>
          JObj [(py ''error'', JStr (py ''Failed to parse VLM output as JSON.'')),
                (py ''raw_output'', JStr json_text)])"

definition ollama_moondream_parse_business_card ::
  "('img \<Rightarrow> pystr + pystr) \<Rightarrow> (pystr \<Rightarrow> pystr + pystr) \<Rightarrow> 'img option \<Rightarrow> call list \<times> json" where
  "ollama_moondream_parse_business_card pil_to_bytes chat pil_image =
     (case pil_image of
        None \<Rightarrow> ([], error_dict (py ''Please upload an image.''))
      | Some img \<Rightarrow>
          (case pil_to_bytes img of
             Inl e \<Rightarrow> ([EncodeImage], error_dict (py ''Failed to process image: '' @ e))
           | Inr image_bytes \<Rightarrow>
               (case chat image_bytes of
                  Inl e \<Rightarrow>
                    ([EncodeImage, Inference],
                     error_dict (py ''Ollama inference failed: '' @ e
                                 @ py ''. Is the Ollama server running?''))
                | Inr content \<Rightarrow>
                    ([EncodeImage, Inference],
                     ollama_moondream_parsed_data (ollama_moondream_json_text content)))))"

subsection \<open>\<open>new_gradio.py\<close>\<close>

text \<open>\<open>extract_text_from_image\<close>: the OCR text stripped, or the text \<open>OCR Error: ...\<close>.\<close>

definition extract_text_from_image :: "('img \<Rightarrow> pystr + pystr) \<Rightarrow> 'img \<Rightarrow> pystr" where
  "extract_text_from_image image_to_string pil_image =
     (case image_to_string pil_image of
        Inr text \<Rightarrow> py_strip text
      | Inl e \<Rightarrow> py ''OCR Error: '' @ e)"

text \<open>\<open>text.split(fence)[1].split("```")[0].strip()\<close>\<close>

definition between_fences :: "pystr \<Rightarrow> pystr \<Rightarrow> exn + pystr" where
  "between_fences text fence =
     bind_exn (py_split text fence) (\<lambda>parts.
     bind_exn (py_nth parts 1) (\<lambda>part.
     bind_exn (py_split part (py ''```'')) (\<lambda>inner.
     bind_exn (py_nth inner 0) (\<lambda>body. Inr (py_strip body)))))"

text \<open>The clean-up of the reply, then the span from the first \<open>{\<close> to the last \<open>}\<close>.\<close>

definition new_gradio_unfenced :: "pystr \<Rightarrow> exn + pystr" where
  "new_gradio_unfenced text =
     (if py_in (py ''```json'') text then between_fences text (py ''```json'')
      else if py_in (py ''```'') text then between_fences text (py ''```'')
      else Inr text)"

definition new_gradio_braces :: "pystr \<Rightarrow> exn + pystr" where
  "new_gradio_braces text =
     (if py_in (py ''{'') text \<and> py_in (py ''}'') text then
        bind_exn (py_index text 0x7B) (\<lambda>start.
        bind_exn (py_rindex text 0x7D) (\<lambda>last.
        Inr (py_slice text (int start) (int (last + 1)))))
      else Inr text)"

definition new_gradio_text :: "pystr \<Rightarrow> exn + pystr" where
  "new_gradio_text content = bind_exn (new_gradio_unfenced (py_strip content)) new_gradio_braces"

text \<open>\<open>parsed[key] = value\<close> with a string key: only a \<open>dict\<close> takes it.\<close>

fun setitem :: "json \<Rightarrow> pystr \<Rightarrow> json \<Rightarrow> exn + json" where
  "setitem (JObj d) k v = Inr (JObj (dict_set d k v))"
| "setitem (JArr xs) k v = Inl (TypeError, py ''list indices must be integers or slices, not str'')"
| "setitem (JStr x) k v = Inl (TypeError, py [CHR 0x27] @ py ''str'' @ py [CHR 0x27] @ py '' object does not support item assignment'')"
| "setitem (JInt i) k v = Inl (TypeError, py [CHR 0x27] @ py ''int'' @ py [CHR 0x27] @ py '' object does not support item assignment'')"
| "setitem (JFloat x) k v = Inl (TypeError, py [CHR 0x27] @ py ''float'' @ py [CHR 0x27] @ py '' object does not support item assignment'')"
| "setitem (JBool b) k v = Inl (TypeError, py [CHR 0x27] @ py ''bool'' @ py [CHR 0x27] @ py '' object does not support item assignment'')"
| "setitem JNull k v = Inl (TypeError, py [CHR 0x27] @ py ''NoneType'' @ py [CHR 0x27] @ py '' object does not support item assignment'')"

text \<open>
  How \<open>json.loads\<close> ends on a text that it does not decode: with \<open>JSONDecodeError\<close>
  where the text breaks the grammar, with \<open>RecursionError\<close> where the nesting exceeds the
  recursion limit first, with \<open>ValueError\<close> where an integer exceeds the digit limit first;
  each with its message.
\<close>

datatype decoder_error = Malformed pystr | TooDeep pystr | TooManyDigits pystr

fun raised :: "decoder_error \<Rightarrow> exn" where
  "raised (Malformed msg) = (JSONDecodeError, msg)"
| "raised (TooDeep msg) = (RecursionError, msg)"
| "raised (TooManyDigits msg) = (ValueError, msg)"

text \<open>
  The body of the \<open>try\<close> after the reply has arrived, with the value of \<open>text\<close> at the
  moment an exception is raised: the handler of \<open>JSONDecodeError\<close> reads it.
  \<open>decode_error\<close> says how the decoder ends on a text it does not decode.
\<close>

definition new_gradio_parsed ::
  "(pystr \<Rightarrow> decoder_error) \<Rightarrow> pystr \<Rightarrow> pystr \<Rightarrow> (exn \<times> pystr) + json" where
  "new_gradio_parsed decode_error ocr_text content =
     (case new_gradio_unfenced (py_strip content) of
        Inl e \<Rightarrow> Inl (e, py_strip content)
      | Inr unfenced \<Rightarrow>
          (case new_gradio_braces unfenced of
             Inl e \<Rightarrow> Inl (e, unfenced)
           | Inr text \<Rightarrow>
               (case json_loads text of
                  None \<Rightarrow> Inl (raised (decode_error text), text)
                | Some parsed \<Rightarrow>
                    (case setitem parsed (py ''_raw_ocr_text'') (JStr ocr_text) of
                       Inl e \<Rightarrow> Inl (e, text)
                     | Inr parsed' \<Rightarrow> Inr parsed'))))"

text \<open>
  The two handlers: the first takes \<open>JSONDecodeError\<close>, the second every other
  exception, \<open>RecursionError\<close> and \<open>ValueError\<close> among them. \<open>text\<close> is \<open>None\<close>
  while the variable is unbound: a \<open>JSONDecodeError\<close> raised by the backend call itself
  finds it so, and the handler raises in turn.
\<close>

definition new_gradio_handlers :: "pystr \<Rightarrow> exn \<Rightarrow> pystr option \<Rightarrow> exn + json" where
  "new_gradio_handlers ocr_text e text =
     (if fst e = JSONDecodeError then
        (case text of
           None \<Rightarrow>
             Inl (UnboundLocalError,
                  py ''cannot access local variable '' @ py [CHR 0x27] @ py ''text'' @ py [CHR 0x27]
                  @ py '' where it is not associated with a value'')
         | Some t \<Rightarrow>
             Inr (JObj [(py ''error'', JStr (py ''Failed to parse JSON from LLM'')),
                        (py ''raw_ocr_text'', JStr ocr_text),
                        (py ''llm_output'', JStr t),
                        (py ''parse_error'', JStr (snd e))]))
      else Inr (JObj [(py ''error'', JStr (py ''LLM structuring failed: '' @ snd e)),
                      (py ''raw_ocr_text'', JStr ocr_text)]))"

text \<open>The repair pass of this file on a reply that has arrived.\<close>

definition new_gradio_repair ::
  "(pystr \<Rightarrow> decoder_error) \<Rightarrow> pystr \<Rightarrow> pystr \<Rightarrow> exn + json" where
  "new_gradio_repair decode_error ocr_text content =
     (case new_gradio_parsed decode_error ocr_text content of
        Inr parsed \<Rightarrow> Inr parsed
      | Inl (e, text) \<Rightarrow> new_gradio_handlers ocr_text e (Some text))"

definition new_gradio_parse_business_card ::
  "bool \<Rightarrow> ('img \<Rightarrow> pystr + pystr) \<Rightarrow> (pystr \<Rightarrow> exn + pystr) \<Rightarrow> (pystr \<Rightarrow> decoder_error)
     \<Rightarrow> 'img option \<Rightarrow> call list \<times> (exn + json)" where
  "new_gradio_parse_business_card llm_is_None image_to_string create_chat_completion decode_error
       pil_image =
     (case pil_image of
        None \<Rightarrow> ([], Inr (error_dict (py ''Please upload an image.'')))
      | Some img \<Rightarrow>
          (let ocr_text = extract_text_from_image image_to_string img
           in if ocr_text = [] \<or> py_in (py ''OCR Error'') ocr_text
              then ([RunOCR],
                    Inr (JObj [(py ''error'', JStr (py ''Failed to extract text from image.'')),
                               (py ''details'', JStr ocr_text)]))
              else if llm_is_None
              then ([RunOCR],
                    Inr (JObj [(py ''error'', JStr (py ''LLM not loaded - returning raw OCR text'')),
                               (py ''raw_ocr_text'', JStr ocr_text)]))
              else case create_chat_completion ocr_text of
                     Inl e \<Rightarrow> ([RunOCR, Inference], new_gradio_handlers ocr_text e None)
                   | Inr content \<Rightarrow>
                       ([RunOCR, Inference], new_gradio_repair decode_error ocr_text content)))"

text \<open>\<open>isinstance(v, dict)\<close>\<close>

fun is_dict :: "json \<Rightarrow> bool" where
  "is_dict (JObj d) = True"
| "is_dict _ = False"

section \<open>The chat loop of the command-line scripts\<close>

text \<open>
  \<open>chat_mode\<close> of \<open>llama_cli.py\<close> and of \<open>moondream_cli.py\<close>. The conversation is a list
  of messages, each a role and a content; a user message carries its prompt, with the data
  URI of an image before it when an image was loaded.
\<close>

datatype role = User | Assistant

datatype content = Text pystr | ImageAndText pystr pystr

type_synonym message = "role \<times> content"

text \<open>
  What the surroundings do during one pass through the loop body: what \<open>input\<close> returns
  or raises, whether the path after the dash exists, what loading and encoding the image
  yields, and the text fragments that the streamed completion delivers, or the exception
  that ends it.
\<close>

record turn =
  input_line :: "exn + pystr"
  path_exists :: bool
  image_uri :: "exn + pystr"
  completion :: "exn + pystr list"

datatype flow = Continue | Break

text \<open>
  \<open>s.lower()\<close> on the letters \<open>A\<close> to \<open>Z\<close>; other characters are left as they are, and
  none of them lowers to the letters of \<open>exit\<close>, \<open>quit\<close> or \<open>q\<close> alone.
\<close>

definition py_lower :: "pystr \<Rightarrow> pystr" where
  "py_lower s = map (\<lambda>c. if 0x41 \<le> c \<and> c \<le> 0x5A then c + 32 else c) s"

text \<open>\<open>s.split(sep, 1)\<close> cuts at the first occurrence of \<open>sep\<close>, \<open>s.rsplit(sep, 1)\<close> at
  the last one.\<close>

fun split_once_from :: "pystr \<Rightarrow> pystr \<Rightarrow> pystr \<Rightarrow> pystr list" where
  "split_once_from sep cur [] = [cur]"
| "split_once_from sep cur (c # s) =
     (if prefix sep (c # s) then [cur, drop (length sep) (c # s)]
      else split_once_from sep (cur @ [c]) s)"

definition py_split1 :: "pystr \<Rightarrow> pystr \<Rightarrow> exn + pystr list" where
  "py_split1 s sep =
     (if sep = [] then Inl (ValueError, py ''empty separator'')
      else Inr (split_once_from sep [] s))"

definition py_rsplit1 :: "pystr \<Rightarrow> pystr \<Rightarrow> exn + pystr list" where
  "py_rsplit1 s sep =
     (if sep = [] then Inl (ValueError, py ''empty separator'')
      else Inr (rev (map rev (split_once_from (rev sep) [] (rev s)))))"

text \<open>
  The prompt and the image path of a line: \<open>prompt - path\<close>, where the path counts only
  when it exists.
\<close>

definition parse_input ::
  "(pystr \<Rightarrow> pystr \<Rightarrow> exn + pystr list) \<Rightarrow> bool \<Rightarrow> pystr \<Rightarrow> exn + (pystr \<times> pystr option)" where
  "parse_input split1 exists user_input =
     (if py_in (py '' - '') user_input then
        bind_exn (split1 user_input (py '' - '')) (\<lambda>parts.
        bind_exn (py_nth parts 0) (\<lambda>p0.
        bind_exn (py_nth parts 1) (\<lambda>p1.
        Inr (py_strip p0, if exists then Some (py_strip p1) else None))))
      else Inr (user_input, None))"

text \<open>The user message; \<open>if image_path:\<close> holds for a path that is set and not empty.\<close>

definition build_message :: "pystr \<Rightarrow> pystr option \<Rightarrow> exn + pystr \<Rightarrow> exn + message" where
  "build_message prompt image_path loaded =
     (if image_path \<noteq> None \<and> image_path \<noteq> Some [] then
        (case loaded of
           Inl e \<Rightarrow> Inl e
         | Inr uri \<Rightarrow> Inr (User, ImageAndText uri prompt))
      else Inr (User, Text prompt))"

text \<open>
  The two handlers around the loop body: \<open>KeyboardInterrupt\<close> leaves the loop, any other
  exception is reported and the loop goes on.
\<close>

definition loop_handlers :: "exn \<Rightarrow> message list \<Rightarrow> flow \<times> message list" where
  "loop_handlers e conversation =
     (if fst e = KeyboardInterrupt then (Break, conversation) else (Continue, conversation))"

text \<open>One pass through the body of \<open>while True\<close>.\<close>

definition chat_turn ::
  "(pystr \<Rightarrow> pystr \<Rightarrow> exn + pystr list) \<Rightarrow> turn \<Rightarrow> message list \<Rightarrow> flow \<times> message list" where
  "chat_turn split1 t conversation =
     (case input_line t of
        Inl e \<Rightarrow> loop_handlers e conversation
      | Inr line \<Rightarrow>
          (let user_input = py_strip line
           in if user_input = [] then (Continue, conversation)
              else if py_lower user_input \<in> set [py ''exit'', py ''quit'', py ''q'']
              then (Break, conversation)
              else
                (case parse_input split1 (path_exists t) user_input of
                   Inl e \<Rightarrow> loop_handlers e conversation
                 | Inr (prompt, image_path) \<Rightarrow>
                     (case build_message prompt image_path (image_uri t) of
                        Inl e \<Rightarrow> loop_handlers e conversation
                      | Inr message \<Rightarrow>
                          (case completion t of
                             Inl e \<Rightarrow> loop_handlers e (conversation @ [message])
                           | Inr chunks \<Rightarrow>
                               (Continue,
                                conversation @ [message]
                                  @ [(Assistant, Text (concat chunks))]))))))"

text \<open>
  The loop over the passes that the surroundings drive; the result is the conversation
  when the loop is left, or after the last pass given.
\<close>

fun chat_loop ::
  "(turn \<Rightarrow> message list \<Rightarrow> flow \<times> message list) \<Rightarrow> turn list \<Rightarrow> message list \<Rightarrow> message list" where
  "chat_loop body [] conversation = conversation"
| "chat_loop body (t # ts) conversation =
     (case body t conversation of
        (Break, conversation') \<Rightarrow> conversation'
      | (Continue, conversation') \<Rightarrow> chat_loop body ts conversation')"

definition llama_cli_chat_mode :: "turn list \<Rightarrow> message list" where
  "llama_cli_chat_mode turns = chat_loop (chat_turn py_split1) turns []"

definition moondream_cli_chat_mode :: "turn list \<Rightarrow> message list" where
  "moondream_cli_chat_mode turns = chat_loop (chat_turn py_rsplit1) turns []"

text \<open>
  Strict alternation of the roles, beginning with the user; and the weaker order in which
  every assistant turn directly follows a user turn.
\<close>

fun alternating :: "role list \<Rightarrow> bool" where
  "alternating [] = True"
| "alternating [r] = (r = User)"
| "alternating (r # r' # rs) = (r = User \<and> r' = Assistant \<and> alternating rs)"

fun answered :: "role list \<Rightarrow> bool" where
  "answered [] = True"
| "answered (Assistant # rs) = False"
| "answered (User # Assistant # rs) = answered rs"
| "answered (User # rs) = answered rs"

section \<open>The JSON encoder of the standard library\<close>









section \<open>Values that survive being written and read again\<close>



section \<open>Auxiliary facts\<close>

subsection \<open>The clean-up never raises\<close>

lemma split_from_nonempty: "split_from sep cur s \<noteq> []"
  by (induction sep cur s rule: split_from.induct) auto

lemma split_from_two:
  "sep \<noteq> [] \<Longrightarrow> sublist sep s \<Longrightarrow> 2 \<le> length (split_from sep cur s)"
proof (induction sep cur s rule: split_from.induct)
  case (1 sep cur)
  then show ?case by simp
next
  case (2 sep cur c s)
  show ?case
  proof (cases "prefix sep (c # s)")
    case True
    with 2(3) split_from_nonempty[of sep "[]" "drop (length sep) (c # s)"] show ?thesis
      by (cases "split_from sep [] (drop (length sep) (c # s))") auto
  next
    case False
    with 2(3,4) have "sublist sep s"
      by (cases sep) (auto simp: sublist_Cons_right)
    with False 2 show ?thesis by simp
  qed
qed

lemma between_fences_total:
  assumes "fence \<noteq> []" "py_in fence text"
  shows "\<exists>t. between_fences text fence = Inr t"
proof -
  have a: "1 < length (split_from fence [] text)"
    using split_from_two[OF assms(1), of "text" "[]"] assms(2) by (simp add: py_in_def)
  have b: "0 < length (split_from (py ''```'') [] p)" for p
    using split_from_nonempty[of "py ''```''" "[]" p] by simp
  show ?thesis
    using a b assms(1)
    by (simp add: between_fences_def bind_exn_def py_split_def py_nth_def)
qed

lemma new_gradio_unfenced_total: "\<exists>t. new_gradio_unfenced text = Inr t"
  using between_fences_total[of "py ''```json''" "text"] between_fences_total[of "py ''```''" "text"]
  by (auto simp: new_gradio_unfenced_def)

lemma first_index_None: "first_index s c = None \<longleftrightarrow> c \<notin> set s"
  by (induction s) auto

lemma py_in_single: "py_in [c] s \<longleftrightarrow> c \<in> set s"
  by (induction s) (auto simp: py_in_def sublist_Cons_right)

lemma new_gradio_braces_total: "\<exists>t. new_gradio_braces text = Inr t"
proof (cases "py_in (py ''{'') text \<and> py_in (py ''}'') text")
  case True
  then have "first_index text 0x7B \<noteq> None" "first_index (rev text) 0x7D \<noteq> None"
    by (simp_all add: py_in_single first_index_None)
  then show ?thesis
    by (auto simp: new_gradio_braces_def bind_exn_def py_index_def py_rindex_def)
next
  case False
  then show ?thesis by (auto simp: new_gradio_braces_def)
qed

lemma new_gradio_text_total: "\<exists>t. new_gradio_text content = Inr t"
proof -
  obtain u where "new_gradio_unfenced (py_strip content) = Inr u"
    using new_gradio_unfenced_total by blast
  moreover obtain t where "new_gradio_braces u = Inr t"
    using new_gradio_braces_total by blast
  ultimately show ?thesis by (simp add: new_gradio_text_def bind_exn_def)
qed

lemma new_gradio_parsed_text:
  "new_gradio_text content = Inr text \<Longrightarrow>
   new_gradio_parsed decode_error ocr_text content =
     (case json_loads text of
        None \<Rightarrow> Inl (raised (decode_error text), text)
      | Some parsed \<Rightarrow>
          (case setitem parsed (py ''_raw_ocr_text'') (JStr ocr_text) of
             Inl e \<Rightarrow> Inl (e, text)
           | Inr parsed' \<Rightarrow> Inr parsed'))"
  by (auto simp: new_gradio_text_def new_gradio_parsed_def bind_exn_def split: sum.splits)

lemma setitem_not_dict:
  "\<not> is_dict v \<Longrightarrow> \<exists>msg. setitem v k x = Inl (TypeError, msg)"
  by (cases v) auto

lemma map_of_dict_set:
  "map_of (dict_set d k x) k' = (if k' = k then Some x else map_of d k')"
  by (induction d k x rule: dict_set.induct) auto

subsection \<open>Running the definitions on a literal\<close>

lemmas str_eval = py_strip_def strip_by_def isspace_def startswith_def py_in_def
  sublist_Cons_right py_slice_def slice_index_def Let_def py_split_def py_nth_def
  py_index_def py_rindex_def bind_exn_def py_strip_chars_def

lemmas json_eval = json_loads_def scan_token_def scan_word_def scan_number_def
  int_part_len_def frac_len_def exp_len_def digits_val_def int_of_lexeme_def json_ws_def
  is_digit_def hex_val_def decode_uXXXX_def backslash_def

lemmas variant_eval = gradio_app_json_text_def gradio_app_parsed_data_def
  ollama_Gradio_json_text_def ollama_Gradio_parsed_def ollama_moondream_json_text_def
  ollama_moondream_parsed_data_def new_gradio_text_def new_gradio_unfenced_def
  new_gradio_braces_def between_fences_def new_gradio_parsed_def new_gradio_handlers_def
  new_gradio_repair_def

subsection \<open>The chat loop\<close>

lemma chat_turn_cases:
  "chat_turn sp t c = (f, c') \<Longrightarrow>
     c' = c \<or> (\<exists>m. fst m = User \<and> (c' = c @ [m] \<and> (\<exists>e. completion t = Inl e)
                                    \<or> (\<exists>a. c' = c @ [m, (Assistant, a)])))"
  by (auto simp: chat_turn_def loop_handlers_def build_message_def Let_def
           split: sum.splits if_splits prod.splits)

lemma answered_snoc_user: "answered rs \<Longrightarrow> answered (rs @ [User])"
  by (induction rs rule: answered.induct) auto

lemma answered_snoc_pair: "answered rs \<Longrightarrow> answered (rs @ [User, Assistant])"
  by (induction rs rule: answered.induct) auto

lemma alternating_snoc_pair:
  "alternating rs \<Longrightarrow> even (length rs) \<Longrightarrow> alternating (rs @ [User, Assistant])"
  by (induction rs rule: alternating.induct) auto

lemma chat_turn_prefix: "chat_turn sp t c = (f, c') \<Longrightarrow> prefix c c'"
  by (drule chat_turn_cases) auto

lemma chat_turn_answered:
  "chat_turn sp t c = (f, c') \<Longrightarrow> answered (map fst c) \<Longrightarrow> answered (map fst c')"
  by (drule chat_turn_cases) (auto simp: answered_snoc_user answered_snoc_pair)

lemma chat_turn_alternating:
  assumes "chat_turn sp t c = (f, c')" "\<exists>chunks. completion t = Inr chunks"
    "alternating (map fst c)" "even (length c)"
  shows "alternating (map fst c') \<and> even (length c')"
  using chat_turn_cases[OF assms(1)] assms(2-4)
  by (auto simp: alternating_snoc_pair)

lemma chat_loop_prefix: "prefix c (chat_loop (chat_turn sp) ts c)"
proof (induction ts arbitrary: c)
  case Nil
  then show ?case by simp
next
  case (Cons t ts)
  obtain f c' where s: "chat_turn sp t c = (f, c')" by (cases "chat_turn sp t c")
  show ?case
  proof (cases f)
    case Continue
    with s Cons[of c'] chat_turn_prefix[OF s] show ?thesis
      by (auto intro: prefix_order.trans)
  next
    case Break
    with s chat_turn_prefix[OF s] show ?thesis by simp
  qed
qed

lemma chat_loop_append:
  "chat_loop body (ts @ later) c = chat_loop body ts c
   \<or> chat_loop body (ts @ later) c = chat_loop body later (chat_loop body ts c)"
  by (induction ts arbitrary: c) (auto split: prod.splits flow.splits)

lemma chat_loop_answered:
  "answered (map fst c) \<Longrightarrow> answered (map fst (chat_loop (chat_turn sp) ts c))"
proof (induction ts arbitrary: c)
  case Nil
  then show ?case by simp
next
  case (Cons t ts)
  obtain f c' where s: "chat_turn sp t c = (f, c')" by (cases "chat_turn sp t c")
  from chat_turn_answered[OF s Cons.prems] Cons.IH[of c'] s show ?case
    by (cases f) auto
qed

lemma chat_loop_alternating:
  "\<forall>t\<in>set ts. \<exists>chunks. completion t = Inr chunks \<Longrightarrow>
   alternating (map fst c) \<Longrightarrow> even (length c) \<Longrightarrow>
   alternating (map fst (chat_loop (chat_turn sp) ts c))"
proof (induction ts arbitrary: c)
  case Nil
  then show ?case by simp
next
  case (Cons t ts)
  obtain f c' where s: "chat_turn sp t c = (f, c')" by (cases "chat_turn sp t c")
  from Cons.prems have "\<exists>chunks. completion t = Inr chunks" by simp
  from chat_turn_alternating[OF s this Cons.prems(2,3)]
  have a: "alternating (map fst c')" "even (length c')" by simp_all
  from Cons.prems have "\<forall>t\<in>set ts. \<exists>chunks. completion t = Inr chunks" by simp
  from Cons.IH[OF this a] s a show ?case
    by (cases f) auto
qed

lemmas chat_eval = chat_turn_def loop_handlers_def build_message_def parse_input_def
  py_lower_def py_split1_def py_rsplit1_def llama_cli_chat_mode_def
  moondream_cli_chat_mode_def

subsection \<open>White space and backquotes around a JSON text\<close>

text \<open>
  The characters that \<open>strip()\<close> and \<open>strip('` \n')\<close> remove: none of them can begin or
  continue a token, and inside a string none is a quote, a backslash or a letter.
\<close>

definition strippable :: "nat \<Rightarrow> bool" where
  "strippable c \<longleftrightarrow> isspace c \<or> c = 0x60"

lemma strippable_not_token_char:
  assumes "strippable c"
  shows "c \<noteq> 0x22" "c \<noteq> 0x5C" "c \<noteq> 0x75" "c \<noteq> 0x7B" "c \<noteq> 0x7D" "c \<noteq> 0x5B" "c \<noteq> 0x5D"
    "c \<noteq> 0x3A" "c \<noteq> 0x2C" "c \<noteq> 0x2D" "c \<noteq> 0x2B" "c \<noteq> 0x2E" "c \<noteq> 0x65" "c \<noteq> 0x45"
    "c \<noteq> 0x6E" "c \<noteq> 0x74" "c \<noteq> 0x66" "c \<noteq> 0x4E" "c \<noteq> 0x49" "c \<noteq> 0x30"
    "\<not> is_digit c"
    "hex_val c = None" "backslash c = None"
  using assms
  by (auto simp: strippable_def isspace_def is_digit_def hex_val_def backslash_def)

lemma json_ws_strippable: "json_ws c \<Longrightarrow> strippable c"
  by (auto simp: json_ws_def strippable_def isspace_def)

lemma scan_token_strippable:
  assumes "strippable c"
  shows "scan_token (c # s) = None"
  using strippable_not_token_char[OF assms]
  by (simp add: scan_token_def scan_word_def scan_number_def int_part_len_def startswith_def)

lemma tokens_strippable_prefix:
  "\<forall>c\<in>set w. strippable c \<Longrightarrow> tokens (w @ s) = Some ts \<Longrightarrow>
     tokens s = Some ts \<and> (\<forall>c\<in>set w. json_ws c)"
proof (induction w)
  case Nil
  then show ?case by simp
next
  case (Cons c w)
  then have c: "strippable c" by simp
  show ?case
  proof (cases "json_ws c")
    case True
    with Cons show ?thesis by simp
  next
    case False
    with Cons.prems(2) scan_token_strippable[OF c, of "w @ s"] show ?thesis by simp
  qed
qed

lemma takeWhile_append_none:
  "\<forall>c\<in>set w. \<not> P c \<Longrightarrow> takeWhile P (s @ w) = takeWhile P s"
  by (induction s) (auto simp: takeWhile_eq_Nil_iff)

lemma prefix_append_strippable:
  "\<forall>c\<in>set p. \<not> strippable c \<Longrightarrow> \<forall>c\<in>set w. strippable c \<Longrightarrow>
     prefix p (s @ w) = prefix p s"
proof (induction p arbitrary: s)
  case Nil
  then show ?case by simp
next
  case (Cons a p)
  show ?case
  proof (cases s)
    case Nil
    with Cons.prems show ?thesis by (cases w) auto
  next
    case (Cons x s')
    with Cons.IH[of s'] Cons.prems show ?thesis by simp
  qed
qed

lemma take2_append_strippable:
  assumes "\<forall>c\<in>set w. strippable c"
  shows "(take 2 (s @ w) = [0x5C, 0x75]) = (take 2 s = [0x5C, 0x75])"
proof (cases s)
  case Nil
  with assms strippable_not_token_char(2) show ?thesis
    by (cases w) auto
next
  case s1: (Cons a s1)
  show ?thesis
  proof (cases s1)
    case Nil
    with s1 assms strippable_not_token_char(3) show ?thesis
      by (cases w) auto
  next
    case (Cons b s2)
    with s1 show ?thesis by simp
  qed
qed

lemma decode_uXXXX_append:
  assumes "\<forall>c\<in>set w. strippable c" "decode_uXXXX (x @ w) = Some n"
  shows "decode_uXXXX x = Some n \<and> 4 \<le> length x"
proof -
  have h: "\<forall>c\<in>set w. hex_val c = None"
    using assms(1) strippable_not_token_char(22) by blast
  show ?thesis
  proof (cases x)
    case Nil
    with assms(2) h show ?thesis
      by (auto simp: decode_uXXXX_def split: list.splits option.splits)
  next
    case x1: (Cons a x1)
    show ?thesis
    proof (cases x1)
      case Nil
      with x1 assms(2) h show ?thesis
        by (auto simp: decode_uXXXX_def split: list.splits option.splits)
    next
      case x2: (Cons b x2)
      show ?thesis
      proof (cases x2)
        case Nil
        with x1 x2 assms(2) h show ?thesis
          by (auto simp: decode_uXXXX_def split: list.splits option.splits)
      next
        case x3: (Cons c x3)
        show ?thesis
        proof (cases x3)
          case Nil
          with x1 x2 x3 assms(2) h show ?thesis
            by (auto simp: decode_uXXXX_def split: list.splits option.splits)
        next
          case (Cons d x4)
          with x1 x2 x3 assms(2) show ?thesis
            by (auto simp: decode_uXXXX_def)
        qed
      qed
    qed
  qed
qed

lemma scanstring_strippable:
  "\<forall>c\<in>set w. strippable c \<Longrightarrow> scanstring acc w = None"
proof (induction w arbitrary: acc)
  case Nil
  then show ?case by simp
next
  case (Cons c w)
  then have "strippable c" by simp
  from strippable_not_token_char(1,2)[OF this] Cons show ?case by simp
qed

lemma scanstring_append:
  assumes W: "\<forall>c\<in>set w. strippable c"
  shows "scanstring acc (s @ w) = Some (str, r) \<Longrightarrow>
           \<exists>r0. r = r0 @ w \<and> scanstring acc s = Some (str, r0)"
proof (induction acc s rule: scanstring.induct)
  case (1 acc)
  with scanstring_strippable[OF W, of acc] show ?case by simp
next
  case (2 acc c s)
  note run = 2(6)
  show ?case
  proof (cases "c = 0x22")
    case True
    with run show ?thesis by simp
  next
    case q: False
    show ?thesis
    proof (cases "c = 0x5C")
      case False
      with q run have "scanstring (acc @ [c]) (s @ w) = Some (str, r)" "\<not> c < 0x20"
        by (auto split: if_splits)
      with 2(5)[OF q False] q False show ?thesis by simp
    next
      case b: True
      show ?thesis
      proof (cases s)
        case Nil
        have "scanstring acc (0x5C # w) = None"
        proof (cases w)
          case Nil
          then show ?thesis by simp
        next
          case (Cons e w')
          with W have "strippable e" by simp
          from strippable_not_token_char(3,23)[OF this] Cons show ?thesis by simp
        qed
        with Nil b run show ?thesis by simp
      next
        case s: (Cons e s')
        show ?thesis
        proof (cases "e = 0x75")
          case False
          with q b s run obtain ch where ch: "backslash e = Some ch"
            and rec: "scanstring (acc @ [ch]) (s' @ w) = Some (str, r)"
            by (auto split: option.splits)
          from 2(4)[OF q b s False ch rec] q b s False ch show ?thesis by simp
        next
          case u: True
          define x where "x = s' @ w"
          from q b s u run
          have run': "(case decode_uXXXX x of
                  None \<Rightarrow> None
                | Some uni \<Rightarrow>
                    if 0xD800 \<le> uni \<and> uni \<le> 0xDBFF \<and> take 2 (drop 4 x) = [0x5C, 0x75] then
                      (case decode_uXXXX (drop 6 x) of
                         None \<Rightarrow> None
                       | Some uni2 \<Rightarrow>
                           if 0xDC00 \<le> uni2 \<and> uni2 \<le> 0xDFFF
                           then scanstring
                                  (acc @ [0x10000 + (uni - 0xD800) * 1024 + (uni2 - 0xDC00)])
                                  (drop 10 x)
                           else scanstring (acc @ [uni]) (drop 4 x))
                    else scanstring (acc @ [uni]) (drop 4 x)) = Some (str, r)"
            by (simp add: x_def[symmetric])
          then obtain uni where d0: "decode_uXXXX x = Some uni"
            by (auto split: option.splits)
          from decode_uXXXX_append[OF W d0[unfolded x_def]]
          have d: "decode_uXXXX s' = Some uni" and l4: "4 \<le> length s'" by simp_all
          from l4 have dr4: "drop 4 x = drop 4 s' @ w" by (simp add: x_def)
          let ?pair = "0xD800 \<le> uni \<and> uni \<le> 0xDBFF \<and> take 2 (drop 4 s') = [0x5C, 0x75]"
          have pair_eq: "(take 2 (drop 4 x) = [0x5C, 0x75]) = (take 2 (drop 4 s') = [0x5C, 0x75])"
            unfolding dr4 by (rule take2_append_strippable[OF W])
          show ?thesis
          proof (cases ?pair)
            case False
            with d0 pair_eq run'
            have "scanstring (acc @ [uni]) (drop 4 x) = Some (str, r)"
              by auto
            then have rec: "scanstring (acc @ [uni]) (drop 4 s' @ w) = Some (str, r)"
              unfolding dr4 .
            from 2(3)[OF q b s u d False rec] q b s u d False show ?thesis by auto
          next
            case p: True
            then have "length (take 2 (drop 4 s')) = length [0x5C, 0x75 :: nat]"
              by simp
            then have l6: "6 \<le> length s'"
              by simp
            then have dr6: "drop 6 x = drop 6 s' @ w" by (simp add: x_def)
            from d0 pair_eq p run'
            have run2: "(case decode_uXXXX (drop 6 x) of
                         None \<Rightarrow> None
                       | Some uni2 \<Rightarrow>
                           if 0xDC00 \<le> uni2 \<and> uni2 \<le> 0xDFFF
                           then scanstring
                                  (acc @ [0x10000 + (uni - 0xD800) * 1024 + (uni2 - 0xDC00)])
                                  (drop 10 x)
                           else scanstring (acc @ [uni]) (drop 4 x)) = Some (str, r)"
              by simp
            then obtain uni2 where e0: "decode_uXXXX (drop 6 x) = Some uni2"
              by (auto split: option.splits)
            from decode_uXXXX_append[OF W e0[unfolded dr6]]
            have e: "decode_uXXXX (drop 6 s') = Some uni2" and l10: "10 \<le> length s'"
              by (simp, simp, arith)
            from l10 have dr10: "drop 10 x = drop 10 s' @ w" by (simp add: x_def)
            show ?thesis
            proof (cases "0xDC00 \<le> uni2 \<and> uni2 \<le> 0xDFFF")
              case low: True
              with e0 run2
              have "scanstring
                   (acc @ [0x10000 + (uni - 0xD800) * 1024 + (uni2 - 0xDC00)])
                   (drop 10 x) = Some (str, r)"
                by simp
              then have rec: "scanstring
                   (acc @ [0x10000 + (uni - 0xD800) * 1024 + (uni2 - 0xDC00)])
                   (drop 10 s' @ w) = Some (str, r)"
                unfolding dr10 .
              from 2(1)[OF q b s u d p e low rec] q b s u d p e low show ?thesis by auto
            next
              case low: False
              with e0 run2
              have "scanstring (acc @ [uni]) (drop 4 x) = Some (str, r)"
                by auto
              then have rec: "scanstring (acc @ [uni]) (drop 4 s' @ w) = Some (str, r)"
                unfolding dr4 .
              from 2(2)[OF q b s u d p e low rec] q b s u d p e low show ?thesis by auto
            qed
          qed
        qed
      qed
    qed
  qed
qed

lemma frac_len_append:
  assumes W: "\<forall>c\<in>set w. strippable c"
  shows "frac_len (x @ w) = frac_len x"
proof -
  have nd: "\<forall>c\<in>set w. \<not> is_digit c"
    using W strippable_not_token_char(21) by blast
  show ?thesis
  proof (cases x)
    case Nil
    show ?thesis
    proof (cases w)
      case Nil
      with \<open>x = []\<close> show ?thesis by simp
    next
      case (Cons j w')
      with W have "strippable j" by simp
      from strippable_not_token_char(12)[OF this] Cons \<open>x = []\<close> show ?thesis
        by (simp add: frac_len_def)
    qed
  next
    case (Cons d t)
    then show ?thesis
      by (simp add: frac_len_def takeWhile_append_none[OF nd])
  qed
qed

lemma exp_len_append:
  assumes W: "\<forall>c\<in>set w. strippable c"
  shows "exp_len (x @ w) = exp_len x"
proof -
  have nd: "\<forall>c\<in>set w. \<not> is_digit c"
    using W strippable_not_token_char(21) by blast
  show ?thesis
  proof (cases x)
    case Nil
    show ?thesis
    proof (cases w)
      case Nil
      with \<open>x = []\<close> show ?thesis by simp
    next
      case (Cons j w')
      with W have "strippable j" by simp
      from strippable_not_token_char(13,14)[OF this] Cons \<open>x = []\<close> show ?thesis
        by (simp add: exp_len_def)
    qed
  next
    case x: (Cons e t)
    show ?thesis
    proof (cases t)
      case Nil
      have none: "takeWhile is_digit v = []" if "\<forall>c\<in>set v. \<not> is_digit c" for v
        using that by (cases v) auto
      have "\<forall>c\<in>set (drop 1 w). \<not> is_digit c"
        using nd by (auto dest: in_set_dropD)
      with nd have "takeWhile is_digit w = []" "takeWhile is_digit (drop 1 w) = []"
        by (simp_all add: none)
      with x Nil show ?thesis
        by (simp add: exp_len_def Let_def)
    next
      case (Cons g t')
      with x show ?thesis
        by (simp add: exp_len_def Let_def takeWhile_append_none[OF nd])
    qed
  qed
qed

lemma frac_len_le: "frac_len x \<le> length x"
  using length_takeWhile_le[of is_digit "tl x"]
  by (cases x) (auto simp: frac_len_def)

lemma exp_len_le: "exp_len x \<le> length x"
proof (cases x)
  case Nil
  then show ?thesis by (simp add: exp_len_def)
next
  case (Cons e t)
  have "length (takeWhile is_digit (drop m t)) \<le> length t - m" for m
    using length_takeWhile_le[of is_digit "drop m t"] by simp
  from this[of 0] this[of 1] Cons show ?thesis
    by (cases t) (auto simp: exp_len_def Let_def)
qed

lemma int_part_len_append:
  assumes W: "\<forall>c\<in>set w. strippable c" and n: "int_part_len (s @ w) = Some n"
  shows "int_part_len s = Some n \<and> n \<le> length s"
proof -
  have nd: "\<forall>c\<in>set w. \<not> is_digit c"
    using W strippable_not_token_char(21) by blast
  have w0: "int_part_len w = None"
  proof (cases w)
    case Nil
    then show ?thesis by (simp add: int_part_len_def)
  next
    case (Cons j w')
    with W have "strippable j" by simp
    from strippable_not_token_char(10,20,21)[OF this] Cons show ?thesis
      by (simp add: int_part_len_def)
  qed
  have le: "length (takeWhile is_digit t) \<le> length t" for t :: pystr
    by (rule length_takeWhile_le)
  show ?thesis
  proof (cases s)
    case Nil
    with n w0 show ?thesis by simp
  next
    case s: (Cons a t)
    show ?thesis
    proof (cases "a = 0x2D")
      case False
      with s n le[of "a # t"] show ?thesis
        by (auto simp: int_part_len_def takeWhile_append_none[OF nd] split: if_splits)
    next
      case True
      show ?thesis
      proof (cases t)
        case Nil
        have "case w of [] \<Rightarrow> True | j # _ \<Rightarrow> j \<noteq> 0x30 \<and> \<not> is_digit j"
          using W strippable_not_token_char(20,21) by (cases w) auto
        with s True Nil n show ?thesis
          by (auto simp: int_part_len_def split: list.splits)
      next
        case (Cons d t')
        with s True n le[of "d # t'"] show ?thesis
          by (auto simp: int_part_len_def takeWhile_append_none[OF nd] split: if_splits)
      qed
    qed
  qed
qed

lemma scan_number_append:
  assumes W: "\<forall>c\<in>set w. strippable c" and r: "scan_number (s @ w) = Some (t, r)"
  shows "\<exists>r0. r = r0 @ w \<and> scan_number s = Some (t, r0)"
proof -
  define x where "x = s @ w"
  from r obtain n where n0: "int_part_len x = Some n"
    by (auto simp: scan_number_def x_def split: option.splits)
  from int_part_len_append[OF W n0[unfolded x_def]]
  have n: "int_part_len s = Some n" and ln: "n \<le> length s"
    by simp_all
  define f where "f = frac_len (drop n s)"
  define e where "e = exp_len (drop (n + f) s)"
  have lf: "n + f \<le> length s"
    using frac_len_le[of "drop n s"] ln by (simp add: f_def)
  have le: "n + f + e \<le> length s"
    using exp_len_le[of "drop (n + f) s"] lf by (simp add: e_def)
  have f': "frac_len (drop n x) = f"
    using ln frac_len_append[OF W, of "drop n s"] by (simp add: f_def x_def)
  have e': "exp_len (drop (n + f) x) = e"
    using lf exp_len_append[OF W, of "drop (n + f) s"] by (simp add: e_def x_def)
  have "scan_number x =
     (if f = 0 \<and> e = 0 then Some (TInt (int_of_lexeme (take n x)), drop n x)
      else Some (TFloat (take (n + f + e) x), drop (n + f + e) x))"
    by (simp only: scan_number_def Let_def n0 option.case f' e')
  with r have run:
    "(if f = 0 \<and> e = 0 then Some (TInt (int_of_lexeme (take n x)), drop n x)
      else Some (TFloat (take (n + f + e) x), drop (n + f + e) x)) = Some (t, r)"
    by (simp add: x_def)
  have own: "scan_number s =
     (if f = 0 \<and> e = 0 then Some (TInt (int_of_lexeme (take n s)), drop n s)
      else Some (TFloat (take (n + f + e) s), drop (n + f + e) s))"
    by (simp only: scan_number_def Let_def n option.case f_def[symmetric] e_def[symmetric])
  have cut: "take n x = take n s" "drop n x = drop n s @ w"
    "take (n + f + e) x = take (n + f + e) s" "drop (n + f + e) x = drop (n + f + e) s @ w"
    using ln le by (simp_all add: x_def)
  show ?thesis
  proof (cases "f = 0 \<and> e = 0")
    case True
    with run own show ?thesis unfolding cut by auto
  next
    case False
    with run own show ?thesis unfolding cut by auto
  qed
qed

lemma int_part_len_append_Some:
  "int_part_len s = Some n \<Longrightarrow> \<exists>m. int_part_len (s @ w) = Some m"
  by (cases s; cases "tl s")
     (auto simp: int_part_len_def split: if_splits)

lemma scan_number_append_None:
  "scan_number (s @ w) = None \<Longrightarrow> scan_number s = None"
  using int_part_len_append_Some[of s _ w]
  by (auto simp: scan_number_def Let_def split: option.splits if_splits)

lemma word_not_strippable:
  "\<forall>c\<in>set (py ''null''). \<not> strippable c" "\<forall>c\<in>set (py ''true''). \<not> strippable c"
  "\<forall>c\<in>set (py ''false''). \<not> strippable c" "\<forall>c\<in>set (py ''NaN''). \<not> strippable c"
  "\<forall>c\<in>set (py ''Infinity''). \<not> strippable c" "\<forall>c\<in>set (py ''-Infinity''). \<not> strippable c"
  by (simp_all add: strippable_def isspace_def)

lemma startswith_append:
  assumes "\<forall>c\<in>set p. \<not> strippable c" "\<forall>c\<in>set w. strippable c"
  shows "startswith (s @ w) p = startswith s p"
  using prefix_append_strippable[OF assms] by (simp add: startswith_def)

lemma startswith_length: "startswith s p \<Longrightarrow> length p \<le> length s"
  by (auto simp: startswith_def prefix_def)

lemma scan_word_append:
  assumes W: "\<forall>c\<in>set w. strippable c" and r: "scan_word (s @ w) = Some (t, r)"
  shows "\<exists>r0. r = r0 @ w \<and> scan_word s = Some (t, r0)"
proof -
  note sw = startswith_append[OF _ W]
  note a = sw[OF word_not_strippable(1)] sw[OF word_not_strippable(2)]
    sw[OF word_not_strippable(3)] sw[OF word_not_strippable(4)]
    sw[OF word_not_strippable(5)] sw[OF word_not_strippable(6)]
  consider (null) "startswith s (py ''null'')"
    | (true) "\<not> startswith s (py ''null'')" "startswith s (py ''true'')"
    | (false) "\<not> startswith s (py ''null'')" "\<not> startswith s (py ''true'')"
        "startswith s (py ''false'')"
    | (other) "\<not> startswith s (py ''null'')" "\<not> startswith s (py ''true'')"
        "\<not> startswith s (py ''false'')"
    by blast
  then show ?thesis
  proof cases
    case null
    from startswith_length[OF null] have "4 \<le> length s" by simp
    with r a null show ?thesis by (simp add: scan_word_def)
  next
    case true
    from startswith_length[OF true(2)] have "4 \<le> length s" by simp
    with r a true show ?thesis by (simp add: scan_word_def)
  next
    case false
    from startswith_length[OF false(3)] have "5 \<le> length s" by simp
    with r a false show ?thesis by (simp add: scan_word_def)
  next
    case other
    show ?thesis
    proof (cases "scan_number (s @ w)")
      case (Some y)
      with r other a have y: "scan_number (s @ w) = Some (t, r)"
        by (simp add: scan_word_def)
      from scan_number_append[OF W y] other show ?thesis
        by (auto simp: scan_word_def)
    next
      case None
      note n = scan_number_append_None[OF None]
      consider (nan) "startswith s (py ''NaN'')"
        | (inf) "\<not> startswith s (py ''NaN'')" "startswith s (py ''Infinity'')"
        | (minf) "\<not> startswith s (py ''NaN'')" "\<not> startswith s (py ''Infinity'')"
            "startswith s (py ''-Infinity'')"
        | (none) "\<not> startswith s (py ''NaN'')" "\<not> startswith s (py ''Infinity'')"
            "\<not> startswith s (py ''-Infinity'')"
        by blast
      then show ?thesis
      proof cases
        case nan
        from startswith_length[OF nan] have "3 \<le> length s" by simp
        with r a other None n nan show ?thesis by (simp add: scan_word_def)
      next
        case inf
        from startswith_length[OF inf(2)] have "8 \<le> length s" by simp
        with r a other None n inf show ?thesis by (simp add: scan_word_def)
      next
        case minf
        from startswith_length[OF minf(3)] have "9 \<le> length s" by simp
        with r a other None n minf show ?thesis by (simp add: scan_word_def)
      next
        case none
        with r a other None show ?thesis by (simp add: scan_word_def)
      qed
    qed
  qed
qed

lemma scan_token_append:
  assumes W: "\<forall>c\<in>set w. strippable c" and r: "scan_token ((c # s) @ w) = Some (t, r)"
  shows "\<exists>r0. r = r0 @ w \<and> scan_token (c # s) = Some (t, r0)"
proof (cases "c = 0x7B \<or> c = 0x7D \<or> c = 0x5B \<or> c = 0x5D \<or> c = 0x3A \<or> c = 0x2C")
  case True
  with r show ?thesis by (auto simp: scan_token_def split: if_splits)
next
  case p: False
  show ?thesis
  proof (cases "c = 0x22")
    case True
    with r p obtain str where "scanstring [] (s @ w) = Some (str, r)" "t = TStr str"
      by (auto simp: scan_token_def)
    with scanstring_append[OF W, of "[]" s str r] True p show ?thesis
      by (auto simp: scan_token_def)
  next
    case False
    with r p have "scan_word ((c # s) @ w) = Some (t, r)"
      by (simp add: scan_token_def)
    from scan_word_append[OF W this] False p show ?thesis
      by (simp add: scan_token_def)
  qed
qed

lemma tokens_strippable_suffix:
  assumes W: "\<forall>c\<in>set w. strippable c"
  shows "tokens (s @ w) = Some ts \<Longrightarrow> tokens s = Some ts \<and> (\<forall>c\<in>set w. json_ws c)"
proof (induction s arbitrary: ts rule: tokens.induct)
  case 1
  with tokens_strippable_prefix[OF W, of "[]" ts] show ?case by simp
next
  case (2 c s)
  show ?case
  proof (cases "json_ws c")
    case True
    with 2 show ?thesis by simp
  next
    case False
    with 2(3) obtain t r where st: "scan_token ((c # s) @ w) = Some (t, r)"
      by (auto split: option.splits)
    from scan_token_append[OF W st] obtain r0 where r0: "r = r0 @ w"
      and st0: "scan_token (c # s) = Some (t, r0)" by blast
    from 2(3) False st obtain ts' where ts': "tokens r = Some ts'" "ts = t # ts'"
      by auto
    from 2(2)[OF False st0 refl, of ts'] ts' r0
    have "tokens r0 = Some ts'" "\<forall>c\<in>set w. json_ws c" by simp_all
    with False st0 ts' show ?thesis by simp
  qed
qed

lemma strip_by_decomp:
  "\<exists>w1 w2. s = w1 @ strip_by P s @ w2 \<and> (\<forall>c\<in>set w1. P c) \<and> (\<forall>c\<in>set w2. P c)"
proof -
  define d where "d = dropWhile P s"
  have 1: "takeWhile P s @ d = s" by (simp add: d_def)
  have "rev (takeWhile P (rev d) @ dropWhile P (rev d)) = rev (rev d)"
    by (simp only: takeWhile_dropWhile_id)
  then have 2: "rev (dropWhile P (rev d)) @ rev (takeWhile P (rev d)) = d"
    by (simp only: rev_append rev_rev_ident)
  have 3: "\<forall>c\<in>set (takeWhile P s). P c" "\<forall>c\<in>set (rev (takeWhile P (rev d))). P c"
    by (auto dest: set_takeWhileD)
  have "strip_by P s = rev (dropWhile P (rev d))"
    by (simp add: strip_by_def d_def)
  with 1 2 have "s = takeWhile P s @ strip_by P s @ rev (takeWhile P (rev d))"
    by simp
  with 3 show ?thesis by blast
qed

lemma strip_by_id:
  assumes "s \<noteq> []" "\<not> P (hd s)" "\<not> P (last s)"
  shows "strip_by P s = s"
proof -
  from assms(1,2) have a: "dropWhile P s = s" by (cases s) auto
  from assms(1,3) have "rev s \<noteq> []" "\<not> P (hd (rev s))" by (simp_all add: hd_rev)
  then have "dropWhile P (rev s) = rev s" by (cases "rev s") auto
  with a show ?thesis by (simp add: strip_by_def)
qed

lemma strip_by_surround:
  assumes "\<forall>c\<in>set a. P c" "\<forall>c\<in>set b. P c"
  shows "strip_by P (a @ s @ b) = strip_by P s"
proof -
  have a: "dropWhile P (a @ s @ b) = dropWhile P (s @ b)"
    by (rule dropWhile_append2) (use assms(1) in auto)
  show ?thesis
  proof (cases "\<forall>c\<in>set s. P c")
    case True
    with assms(2) have "\<forall>c\<in>set (s @ b). P c" by auto
    then have e1: "dropWhile P (s @ b) = []" by (simp only: dropWhile_eq_Nil_conv)
    from True have e2: "dropWhile P s = []" by simp
    show ?thesis unfolding strip_by_def a e1 e2 by simp
  next
    case False
    then have n: "dropWhile P s \<noteq> []" by auto
    then have b: "dropWhile P (s @ b) = dropWhile P s @ b"
      by (auto simp: dropWhile_append)
    have "dropWhile P (rev b @ rev (dropWhile P s)) = dropWhile P (rev (dropWhile P s))"
      by (rule dropWhile_append2) (use assms(2) in auto)
    then show ?thesis unfolding strip_by_def a b by simp
  qed
qed

lemma json_loads_strip_by:
  assumes P: "\<And>c. P c \<Longrightarrow> strippable c" and l: "json_loads t = Some v"
  shows "json_loads (strip_by P t) = Some v"
proof -
  obtain w1 w2 where t: "t = w1 @ strip_by P t @ w2" and w1: "\<forall>c\<in>set w1. strippable c"
    and w2: "\<forall>c\<in>set w2. strippable c"
    using strip_by_decomp[of t P] P by blast
  from l obtain ts where ts: "tokens t = Some ts"
    by (auto simp: json_loads_def split: option.splits)
  from ts t have "tokens (w1 @ strip_by P t @ w2) = Some ts" by simp
  from tokens_strippable_prefix[OF w1 this] have "tokens (strip_by P t @ w2) = Some ts" by simp
  from tokens_strippable_suffix[OF w2 this] have "tokens (strip_by P t) = Some ts" by simp
  with l ts show ?thesis by (simp add: json_loads_def)
qed

lemma isspace_strippable: "isspace c \<Longrightarrow> strippable c"
  by (simp add: strippable_def)

lemma json_loads_py_strip: "json_loads t = Some v \<Longrightarrow> json_loads (py_strip t) = Some v"
  unfolding py_strip_def by (rule json_loads_strip_by[OF isspace_strippable])

lemma json_loads_not_backquote: "json_loads (0x60 # s) = None"
proof -
  have "strippable 0x60" "\<not> json_ws 0x60"
    by (simp_all add: strippable_def json_ws_def)
  with scan_token_strippable[of "0x60" s] show ?thesis
    by (simp add: json_loads_def)
qed

lemma json_loads_not_j: "json_loads (0x6A # s) = None"
  by (simp add: json_loads_def json_ws_def scan_token_def scan_word_def scan_number_def
      int_part_len_def startswith_def is_digit_def)


lemma py_strip_fenced:
  assumes "\<forall>c\<in>set lead. isspace c" "\<forall>c\<in>set trail. isspace c"
  shows "py_strip (lead @ (0x60 # body @ [0x60]) @ trail) = 0x60 # body @ [0x60]"
proof -
  have "\<not> isspace 0x60" by (simp add: isspace_def)
  then have "strip_by isspace (0x60 # body @ [0x60]) = 0x60 # body @ [0x60]"
    by (intro strip_by_id) simp_all
  with strip_by_surround[OF assms, of "0x60 # body @ [0x60]"] show ?thesis
    by (simp add: py_strip_def)
qed

lemma json_fence_cut:
  assumes "\<forall>c\<in>set lead. isspace c" "\<forall>c\<in>set trail. isspace c"
  shows "py_strip (lead @ py ''```json'' @ interior @ py ''```'' @ trail)
           = py ''```json'' @ interior @ py ''```''"
    and "py_slice (py ''```json'' @ interior @ py ''```'') 7 (- 3) = interior"
proof -
  show "py_strip (lead @ py ''```json'' @ interior @ py ''```'' @ trail)
           = py ''```json'' @ interior @ py ''```''"
    using py_strip_fenced[OF assms, of "py ''``json'' @ interior @ py ''``''"] by simp
  show "py_slice (py ''```json'' @ interior @ py ''```'') 7 (- 3) = interior"
    by (simp add: py_slice_def slice_index_def Let_def)
qed

subsection \<open>A text that decodes to an object begins and ends with a brace\<close>

lemma scanstring_suffix: "scanstring acc s = Some (str, r) \<Longrightarrow> suffix r s"
proof (induction acc s rule: scanstring.induct)
  case (1 acc)
  then show ?case by simp
next
  case (2 acc c s)
  have up: "suffix r (drop n x) \<Longrightarrow> suffix r (a # b # x)" for n x a b
    by (meson suffix_ConsI suffix_drop suffix_order.trans)
  show ?case
  proof (cases "c = 0x22")
    case True
    with 2(6) show ?thesis by (simp add: suffix_ConsI)
  next
    case q: False
    show ?thesis
    proof (cases "c = 0x5C")
      case False
      with q 2(5,6) show ?thesis by (fastforce split: if_splits intro: suffix_ConsI)
    next
      case b: True
      then obtain e s' where s: "s = e # s'" using q 2(6) by (cases s) auto
      show ?thesis
      proof (cases "e = 0x75")
        case False
        with q b s 2(4,6) show ?thesis
          by (fastforce split: option.splits intro: suffix_ConsI)
      next
        case u: True
        then obtain uni where d: "decode_uXXXX s' = Some uni"
          using q b s 2(6) by (auto split: option.splits)
        show ?thesis
          using q b s u d 2(1,2,3)[OF q b s u d] 2(6)
          by (fastforce split: option.splits if_splits intro: up)
      qed
    qed
  qed
qed

lemma scan_token_suffix: "scan_token s = Some (t, r) \<Longrightarrow> suffix r s"
proof -
  assume a: "scan_token s = Some (t, r)"
  have num: "scan_number s = Some (t, r) \<Longrightarrow> suffix r s"
    by (auto simp: scan_number_def Let_def suffix_drop split: option.splits if_splits)
  have word: "scan_word s = Some (t, r) \<Longrightarrow> suffix r s"
    using num by (auto simp: scan_word_def suffix_drop split: option.splits if_splits)
  from a show ?thesis
    using word
    by (cases s)
       (auto simp: scan_token_def suffix_ConsI split: if_splits dest!: scanstring_suffix)
qed
lemma scan_token_brace:
  "scan_token (c # s) = Some (TLBrace, r) \<Longrightarrow> c = 0x7B"
  "scan_token (c # s) = Some (TRBrace, r) \<Longrightarrow> c = 0x7D \<and> r = s"
  by (auto simp: scan_token_def scan_word_def scan_number_def Let_def
           split: if_splits option.splits)
lemma tokens_Nil: "tokens s = Some [] \<Longrightarrow> \<forall>c\<in>set s. json_ws c"
proof (induction s rule: tokens.induct)
  case 1
  show ?case by simp
next
  case (2 c s)
  show ?case
  proof (cases "json_ws c")
    case True
    with 2 show ?thesis by simp
  next
    case False
    with 2(3) have False
      by (auto split: option.splits)
    then show ?thesis ..
  qed
qed

lemma tokens_first_brace:
  "tokens s = Some (TLBrace # ts) \<Longrightarrow> s \<noteq> [] \<Longrightarrow> \<not> json_ws (hd s) \<Longrightarrow> hd s = 0x7B"
  by (cases s) (auto split: option.splits dest: scan_token_brace(1))
lemma tokens_last_brace:
  "tokens s = Some ts \<Longrightarrow> ts \<noteq> [] \<Longrightarrow> last ts = TRBrace \<Longrightarrow> s \<noteq> [] \<Longrightarrow>
     \<not> json_ws (last s) \<Longrightarrow> last s = 0x7D"
proof (induction s arbitrary: ts rule: tokens.induct)
  case 1
  then show ?case by simp
next
  case (2 c s)
  show ?case
  proof (cases "json_ws c")
    case True
    with 2(3) have t: "tokens s = Some ts" by simp
    with 2(4) have "s \<noteq> []" by auto
    with 2(1)[OF True t 2(4,5)] 2(7) show ?thesis by simp
  next
    case False
    with 2(3) obtain t r ts' where st: "scan_token (c # s) = Some (t, r)"
      and tr: "tokens r = Some ts'" and ts: "ts = t # ts'"
      by (auto split: option.splits)
    from scan_token_suffix[OF st] obtain p where p: "c # s = p @ r"
      by (auto simp: suffix_def)
    show ?thesis
    proof (cases "r = []")
      case True
      with tr ts 2(5) have "t = TRBrace" by simp
      with st scan_token_brace(2) True show ?thesis by fastforce
    next
      case r: False
      with p have l: "last (c # s) = last r" by (metis last_appendR)
      with 2(7) have nw: "\<not> json_ws (last r)" by simp
      have "ts' \<noteq> []"
      proof
        assume "ts' = []"
        with tr tokens_Nil have "\<forall>c\<in>set r. json_ws c" by blast
        with r nw show False by simp
      qed
      with ts 2(5) have "last ts' = TRBrace" by simp
      from 2(2)[OF False st refl tr \<open>ts' \<noteq> []\<close> this r nw] l show ?thesis by simp
    qed
  qed
qed

lemma parse_suffix:
  "parse_value ts = Some (v, r) \<Longrightarrow> suffix r ts"
  "parse_array acc ts = Some (v, r) \<Longrightarrow> suffix r ts"
  "parse_object d ts = Some (v, r) \<Longrightarrow> suffix r ts"
proof (induction ts and acc ts and d ts arbitrary: v r and v r and v r
       rule: parse_value_parse_array_parse_object.induct)
  case (13 acc ts)
  from 13(3) obtain x y where pv: "parse_value ts = Some (x, y)" and len: "length y < length ts"
    by (auto split: option.splits if_splits)
  from 13(1)[OF pv] have sy: "suffix y ts" .
  show ?case
  proof (cases y)
    case Nil
    with 13(3) pv len show ?thesis by simp
  next
    case (Cons t y')
    then have sy': "suffix y' ts"
      using sy by (meson suffix_ConsD)
    show ?thesis
    proof (cases "t = TComma")
      case True
      with 13(3) pv len Cons have "parse_array (acc @ [x]) y' = Some (v, r)" by simp
      from 13(2)[OF pv refl len Cons True this] sy' show ?thesis
        by (rule suffix_order.trans)
    next
      case False
      with 13(3) pv len Cons have "r = y'"
        by (cases t) auto
      with sy' show ?thesis by simp
    qed
  qed
next
  case (14 acc k ts)
  from 14(3) obtain x y where pv: "parse_value ts = Some (x, y)" and len: "length y < length ts"
    by (auto split: option.splits if_splits)
  from 14(1)[OF pv] have sy: "suffix y (TStr k # TColon # ts)"
    by (simp add: suffix_ConsI)
  show ?case
  proof (cases y)
    case Nil
    with 14(3) pv len show ?thesis by simp
  next
    case (Cons t y')
    then have sy': "suffix y' (TStr k # TColon # ts)"
      using sy by (meson suffix_ConsD)
    show ?thesis
    proof (cases "t = TComma")
      case True
      with 14(3) pv len Cons have "parse_object (dict_set acc k x) y' = Some (v, r)" by simp
      from 14(2)[OF pv refl len Cons True this] sy' show ?thesis
        by (rule suffix_order.trans)
    next
      case False
      with 14(3) pv len Cons have "r = y'"
        by (cases t) auto
      with sy' show ?thesis by simp
    qed
  qed
qed (auto intro: suffix_ConsI simp del: parse_array.simps)

lemma parse_shape:
  "parse_value ts = Some (v, r) \<Longrightarrow> is_dict v \<Longrightarrow>
     (\<exists>ts'. ts = TLBrace # ts') \<and> (\<exists>pre. ts = pre @ TRBrace # r)"
  "parse_array acc ts = Some (v, r) \<Longrightarrow> \<not> is_dict v"
  "parse_object d ts = Some (v, r) \<Longrightarrow> is_dict v \<and> (\<exists>pre. ts = pre @ TRBrace # r)"
proof (induction ts and acc ts and d ts arbitrary: v r and v r and v r
       rule: parse_value_parse_array_parse_object.induct)
  case (13 acc ts)
  from 13(3) obtain x y where pv: "parse_value ts = Some (x, y)" and len: "length y < length ts"
    by (auto split: option.splits if_splits)
  show ?case
  proof (cases y)
    case Nil
    with 13(3) pv len show ?thesis by simp
  next
    case (Cons t y')
    show ?thesis
    proof (cases "t = TComma")
      case True
      with 13(3) pv len Cons have "parse_array (acc @ [x]) y' = Some (v, r)" by simp
      from 13(2)[OF pv refl len Cons True this] show ?thesis .
    next
      case False
      with 13(3) pv len Cons show ?thesis
        by (cases t) auto
    qed
  qed
next
  case (14 acc k ts)
  from 14(3) obtain x y where pv: "parse_value ts = Some (x, y)" and len: "length y < length ts"
    by (auto split: option.splits if_splits)
  from parse_suffix(1)[OF pv] obtain p where p: "ts = p @ y"
    by (auto simp: suffix_def)
  show ?case
  proof (cases y)
    case Nil
    with 14(3) pv len show ?thesis by simp
  next
    case (Cons t y')
    show ?thesis
    proof (cases "t = TComma")
      case True
      with 14(3) pv len Cons have "parse_object (dict_set acc k x) y' = Some (v, r)" by simp
      from 14(2)[OF pv refl len Cons True this]
      obtain pre where "is_dict v" "y' = pre @ TRBrace # r" by blast
      with p Cons True
      have "TStr k # TColon # ts = (TStr k # TColon # p @ TComma # pre) @ TRBrace # r"
        by simp
      with \<open>is_dict v\<close> show ?thesis by blast
    next
      case False
      with 14(3) pv len Cons have "t = TRBrace" "r = y'" "is_dict v"
        by (cases t; auto)+
      with p Cons have "TStr k # TColon # ts = (TStr k # TColon # p) @ TRBrace # r"
        by simp
      with \<open>is_dict v\<close> show ?thesis by blast
    qed
  qed
qed (auto simp del: parse_array.simps intro: Cons_eq_appendI)

lemma strip_by_ends:
  assumes "strip_by P s \<noteq> []"
  shows "\<not> P (hd (strip_by P s))" "\<not> P (last (strip_by P s))"
proof -
  define d where "d = dropWhile P s"
  define e where "e = dropWhile P (rev d)"
  have s: "strip_by P s = rev e" by (simp add: strip_by_def d_def e_def)
  with assms have e: "e \<noteq> []" by simp
  then have he: "\<not> P (hd e)" unfolding e_def by (rule hd_dropWhile)
  have "rev d = takeWhile P (rev d) @ e" by (simp add: e_def)
  with e have "last (rev d) = last e" by (metis last_appendR)
  moreover from e have "d \<noteq> []" by (auto simp: e_def)
  ultimately have "last e = hd d" by (simp add: last_rev)
  moreover from \<open>d \<noteq> []\<close> have "\<not> P (hd d)" unfolding d_def by (rule hd_dropWhile)
  ultimately show "\<not> P (hd (strip_by P s))" using e by (simp add: s hd_rev)
  from he e show "\<not> P (last (strip_by P s))" by (simp add: s last_rev)
qed

lemma json_ws_isspace: "json_ws c \<Longrightarrow> isspace c"
  by (auto simp: json_ws_def isspace_def)

lemma json_loads_object_braces:
  assumes "json_loads t = Some (JObj d)"
  shows "py_strip t \<noteq> []" "hd (py_strip t) = 0x7B" "last (py_strip t) = 0x7D"
proof -
  define s where "s = py_strip t"
  from json_loads_py_strip[OF assms] have l: "json_loads s = Some (JObj d)"
    by (simp add: s_def)
  then obtain ts where ts: "tokens s = Some ts" and pv: "parse_value ts = Some (JObj d, [])"
    by (auto simp: json_loads_def split: option.splits prod.splits list.splits)
  from parse_shape(1)[OF pv] have "\<exists>ts'. ts = TLBrace # ts'" "\<exists>pre. ts = pre @ [TRBrace]"
    by simp_all
  then obtain ts' pre where sh: "ts = TLBrace # ts'" and sh2: "ts = pre @ [TRBrace]"
    by blast
  from sh2 have lt: "ts \<noteq> []" "last ts = TRBrace" by auto
  from ts lt have ne: "s \<noteq> []" by auto
  then have "strip_by isspace t \<noteq> []" by (simp add: s_def py_strip_def)
  from strip_by_ends[OF this] have "\<not> isspace (hd s)" "\<not> isspace (last s)"
    by (simp_all add: s_def py_strip_def)
  then have nw: "\<not> json_ws (hd s)" "\<not> json_ws (last s)"
    using json_ws_isspace by blast+
  from ne show "py_strip t \<noteq> []" by (simp add: s_def)
  from tokens_first_brace[OF ts[unfolded sh] ne nw(1)] show "hd (py_strip t) = 0x7B"
    by (simp add: s_def)
  from tokens_last_brace[OF ts lt ne nw(2)] show "last (py_strip t) = 0x7D"
    by (simp add: s_def)
qed

lemma no_fence_no_json_fence: "\<not> py_in (py ''```'') s \<Longrightarrow> \<not> py_in (py ''```json'') s"
proof
  assume a: "\<not> py_in (py ''```'') s" and "py_in (py ''```json'') s"
  then obtain a b where "s = a @ py ''```json'' @ b"
    by (auto simp: py_in_def sublist_def)
  then have "s = a @ py ''```'' @ (py ''json'' @ b)" by simp
  then have "py_in (py ''```'') s"
    unfolding py_in_def sublist_def by blast
  with a show False by simp
qed

lemma new_gradio_braces_whole:
  assumes "s \<noteq> []" "hd s = 0x7B" "last s = 0x7D"
  shows "new_gradio_braces s = Inr s"
proof -
  from assms obtain s' where s: "s = 0x7B # s'" by (cases s) auto
  from assms have "rev s \<noteq> []" "hd (rev s) = 0x7D" by (simp_all add: hd_rev)
  then obtain q where q: "rev s = 0x7D # q" by (cases "rev s") auto
  have "0x7B \<in> set s" using s by simp
  moreover have "0x7D \<in> set s" using assms(1,3) last_in_set[of s] by simp
  ultimately have i: "py_in (py ''{'') s" "py_in (py ''}'') s"
    using py_in_single[of "0x7B" s] py_in_single[of "0x7D" s] by simp_all
  have a: "py_index s 0x7B = Inr 0" by (simp add: py_index_def s)
  have b: "py_rindex s 0x7D = Inr (length s - 1)" by (simp add: py_rindex_def q)
  from assms(1) have "py_slice s (int 0) (int (length s - 1 + 1)) = s"
    by (cases s) (simp_all add: py_slice_def slice_index_def)
  with i a b show ?thesis
    by (simp add: new_gradio_braces_def bind_exn_def)
qed




subsection \<open>Splitting at a fence\<close>

lemma split_from_absent:
  "sep \<noteq> [] \<Longrightarrow> \<not> sublist sep s \<Longrightarrow> split_from sep cur s = [cur @ s]"
proof (induction s arbitrary: cur)
  case Nil
  then show ?case by simp
next
  case (Cons c s)
  have "\<not> prefix sep (c # s)"
    using Cons.prems(2) prefix_imp_sublist by blast
  moreover have "\<not> sublist sep s"
    using Cons.prems(2) by (meson sublist_Cons_right)
  ultimately show ?case
    using Cons.IH[OF Cons.prems(1), of "cur @ [c]"] by simp
qed

lemma split_from_fence_end:
  "\<not> sublist (py ''```'') x \<Longrightarrow> x = [] \<or> last x \<noteq> 0x60 \<Longrightarrow>
   split_from (py ''```'') cur (x @ py ''```'') = [cur @ x, []]"
proof (induction x arbitrary: cur)
  case Nil
  then show ?case by simp
next
  case (Cons a x)
  have np: "\<not> prefix (py ''```'') ((a # x) @ py ''```'')"
  proof
    assume p: "prefix (py ''```'') ((a # x) @ py ''```'')"
    show False
    proof (cases x)
      case Nil
      with p Cons.prems(2) show ?thesis by simp
    next
      case (Cons b y)
      note xb = Cons
      show ?thesis
      proof (cases y)
        case Nil
        with p xb Cons.prems(2) show ?thesis by simp
      next
        case (Cons c z)
        with p xb have "prefix (py ''```'') (a # x)" by simp
        then show ?thesis
          using Cons.prems(1) prefix_imp_sublist by blast
      qed
    qed
  qed
  have s: "\<not> sublist (py ''```'') x"
    using Cons.prems(1) by (meson sublist_Cons_right)
  have l: "x = [] \<or> last x \<noteq> 0x60"
    using Cons.prems(2) by auto
  show ?case
    using np Cons.IH[OF s l, of "cur @ [a]"] by simp
qed

lemma json_fence_absent:
  assumes "\<not> sublist (py ''```'') x"
  shows "\<not> sublist (py ''```json'') (x @ py ''```'')"
proof
  assume "sublist (py ''```json'') (x @ py ''```'')"
  then obtain a b where e: "x @ py ''```'' = (a @ py ''```'') @ (py ''json'' @ b)"
    by (auto simp: sublist_def)
  then obtain us where
    "(x = (a @ py ''```'') @ us \<and> us @ py ''```'' = py ''json'' @ b)
     \<or> (x @ us = a @ py ''```'' \<and> py ''```'' = us @ py ''json'' @ b)"
    unfolding append_eq_append_conv2 by blast
  then show False
  proof
    assume "x = (a @ py ''```'') @ us \<and> us @ py ''```'' = py ''json'' @ b"
    then have "x = a @ py ''```'' @ us" by simp
    then have "sublist (py ''```'') x" unfolding sublist_def by blast
    with assms show False by simp
  next
    assume "x @ us = a @ py ''```'' \<and> py ''```'' = us @ py ''json'' @ b"
    then have "length (py ''```'') = length (us @ py ''json'' @ b)" by metis
    then show False by simp
  qed
qed

lemma json_loads_last_not_backquote:
  assumes "json_loads t = Some v"
  shows "t \<noteq> []" "last t \<noteq> 0x60"
proof -
  obtain ts where ts: "tokens t = Some ts"
    using assms by (auto simp: json_loads_def split: option.splits)
  show "t \<noteq> []"
    using assms by (auto simp: json_loads_def)
  then obtain y c where t: "t = y @ [c]"
    by (metis append_butlast_last_id)
  show "last t \<noteq> 0x60"
  proof
    assume "last t = 0x60"
    with t have "t = y @ [0x60]" by simp
    with ts tokens_strippable_suffix[of "[0x60]" y ts] have "json_ws 0x60"
      by (simp add: strippable_def)
    then show False by (simp add: json_ws_def)
  qed
qed

lemma between_fences_tagged:
  assumes "\<not> sublist (py ''```'') x" "x = [] \<or> last x \<noteq> 0x60"
  shows "between_fences (py ''```json'' @ x @ py ''```'') (py ''```json'') = Inr (py_strip x)"
proof -
  have "split_from (py ''```json'') [] (py ''```json'' @ x @ py ''```'')
          = [] # split_from (py ''```json'') [] (x @ py ''```'')"
    by simp
  also have "split_from (py ''```json'') [] (x @ py ''```'') = [x @ py ''```'']"
    using split_from_absent[OF _ json_fence_absent[OF assms(1)], of "[]"] by simp
  finally show ?thesis
    using split_from_fence_end[OF assms, of "[]"]
    by (simp add: between_fences_def py_split_def py_nth_def bind_exn_def)
qed

lemma between_fences_bare:
  assumes "\<not> sublist (py ''```'') x" "x = [] \<or> last x \<noteq> 0x60"
  shows "between_fences (py ''```'' @ x @ py ''```'') (py ''```'') = Inr (py_strip x)"
proof -
  have "split_from (py ''```'') [] (py ''```'' @ x @ py ''```'')
          = [] # split_from (py ''```'') [] (x @ py ''```'')"
    by simp
  then show ?thesis
    using split_from_fence_end[OF assms, of "[]"] split_from_absent[OF _ assms(1), of "[]"]
    by (simp add: between_fences_def py_split_def py_nth_def bind_exn_def)
qed
lemma json_fence_absent_bare:
  assumes "\<not> sublist (py ''```'') x" "x \<noteq> []" "hd x \<noteq> 0x60" "hd x \<noteq> 0x6A"
  shows "\<not> sublist (py ''```json'') (py ''```'' @ x @ py ''```'')"
proof
  assume "sublist (py ''```json'') (py ''```'' @ x @ py ''```'')"
  then obtain a b where e: "py ''```'' @ x @ py ''```'' = a @ py ''```json'' @ b"
    by (auto simp: sublist_def)
  obtain c y where x: "x = c # y" "c \<noteq> 0x60" "c \<noteq> 0x6A"
    using assms(2,3,4) by (cases x) auto
  have "\<exists>a' b'. x @ py ''```'' = a' @ py ''```json'' @ b'"
  proof (cases a)
    case Nil
    with e x show ?thesis by simp
  next
    case (Cons a1 r1)
    note a1 = Cons
    show ?thesis
    proof (cases r1)
      case Nil
      with e x a1 show ?thesis by simp
    next
      case (Cons a2 r2)
      note a2 = Cons
      show ?thesis
      proof (cases r2)
        case Nil
        with e x a1 a2 show ?thesis by simp
      next
        case (Cons a3 r3)
        with e a1 a2 have "x @ py ''```'' = r3 @ py ''```json'' @ b" by simp
        then show ?thesis by blast
      qed
    qed
  qed
  then have "sublist (py ''```json'') (x @ py ''```'')"
    unfolding sublist_def by blast
  with json_fence_absent[OF assms(1)] show False by simp
qed

lemma sublist_py_strip: "sublist a (py_strip s) \<Longrightarrow> sublist a s"
proof -
  assume a: "sublist a (py_strip s)"
  obtain w1 w2 where w: "s = w1 @ py_strip s @ w2"
    using strip_by_decomp[of s isspace] unfolding py_strip_def by blast
  from a obtain p q where "py_strip s = p @ a @ q" by (auto simp: sublist_def)
  with w have "s = (w1 @ p) @ a @ (q @ w2)" by simp
  then show ?thesis unfolding sublist_def by blast
qed

lemma new_gradio_text_unfenced:
  assumes "\<not> py_in (py ''```'') x"
  shows "new_gradio_text x = new_gradio_braces (py_strip x)"
proof -
  have "\<not> py_in (py ''```'') (py_strip x)"
    using assms sublist_py_strip unfolding py_in_def by blast
  then show ?thesis
    using no_fence_no_json_fence[of "py_strip x"]
    by (simp add: new_gradio_text_def new_gradio_unfenced_def bind_exn_def)
qed

lemma new_gradio_text_fenced:
  assumes ws: "\<forall>c\<in>set lead. isspace c" "\<forall>c\<in>set trail. isspace c"
    and l: "json_loads x = Some v" and f: "\<not> py_in (py ''```'') x"
  shows "new_gradio_text (lead @ py ''```json'' @ x @ py ''```'' @ trail)
           = new_gradio_braces (py_strip x)"
    and "new_gradio_text (lead @ py ''```'' @ x @ py ''```'' @ trail)
           = new_gradio_braces (py_strip x)"
proof -
  have s: "\<not> sublist (py ''```'') x"
    using f by (simp add: py_in_def)
  note e = json_loads_last_not_backquote[OF l]
  have e': "x = [] \<or> last x \<noteq> 0x60"
    using e by simp
  have h: "hd x \<noteq> 0x60" "hd x \<noteq> 0x6A"
    using l e(1) json_loads_not_backquote[of "tl x"] json_loads_not_j[of "tl x"]
    by (cases x; auto)+
  have tagged: "py_in (py ''```json'') (py ''```json'' @ x @ py ''```'')"
    unfolding py_in_def sublist_def by (metis append_Nil)
  have bare: "py_in (py ''```'') (py ''```'' @ x @ py ''```'')"
    unfolding py_in_def sublist_def by (metis append_Nil)
  have untagged: "\<not> py_in (py ''```json'') (py ''```'' @ x @ py ''```'')"
    unfolding py_in_def by (rule json_fence_absent_bare[OF s e(1) h])
  have st: "py_strip (lead @ py ''```'' @ x @ py ''```'' @ trail) = py ''```'' @ x @ py ''```''"
    using py_strip_fenced[OF ws, of "py ''``'' @ x @ py ''``''"] by simp
  show "new_gradio_text (lead @ py ''```json'' @ x @ py ''```'' @ trail)
           = new_gradio_braces (py_strip x)"
    unfolding new_gradio_text_def json_fence_cut(1)[OF ws] new_gradio_unfenced_def
    using tagged between_fences_tagged[OF s e']
    by (simp only: if_True bind_exn_def sum.case)
  show "new_gradio_text (lead @ py ''```'' @ x @ py ''```'' @ trail)
           = new_gradio_braces (py_strip x)"
    unfolding new_gradio_text_def st new_gradio_unfenced_def
    using untagged bare between_fences_bare[OF s e']
    by (simp only: if_True if_False bind_exn_def sum.case)
qed

lemma new_gradio_repair_text:
  assumes "new_gradio_text c1 = new_gradio_text c2"
  shows "new_gradio_repair decode_error ocr_text c1 = new_gradio_repair decode_error ocr_text c2"
proof -
  obtain t where t: "new_gradio_text c1 = Inr t"
    using new_gradio_text_total by blast
  with assms have t': "new_gradio_text c2 = Inr t" by simp
  show ?thesis
    by (simp add: new_gradio_repair_def new_gradio_parsed_text[OF t] new_gradio_parsed_text[OF t'])
qed

lemma new_gradio_repair_object:
  assumes "new_gradio_text c = Inr t" "json_loads t = Some (JObj d)"
  shows "new_gradio_repair decode_error ocr_text c
           = Inr (JObj (dict_set d (py ''_raw_ocr_text'') (JStr ocr_text)))"
  using assms(2) by (simp add: new_gradio_repair_def new_gradio_parsed_text[OF assms(1)])

subsection \<open>Decoding inverts encoding on well-formed values\<close>






































section \<open>The claims\<close>

subsection \<open>C10: no image uploaded\<close>

text \<open>
  C10. Called with \<open>None\<close> for the image, \<open>parse_business_card\<close> returns
  \<open>{"error": "Please upload an image."}\<close> with an empty call log: no encoding, no OCR, no
  inference. \<open>ollama_Gradio.py\<close>, \<open>ollama_moondream.py\<close> and \<open>new_gradio.py\<close> test the
  image first. \<open>gradio_app.py\<close> tests before it that the model and its chat handler are
  loaded; its web form is built and launched only when they are, and nothing unloads them,
  so every call that the form makes comes with both loaded.
\<close>

theorem no_image_uploaded:
  "(\<not> llm_is_None \<and> \<not> chat_handler_is_None \<longrightarrow>
      gradio_app_parse_business_card llm_is_None chat_handler_is_None encode infer None
        = ([], JObj [(py ''error'', JStr (py ''Please upload an image.''))]))
   \<and> ollama_Gradio_parse_business_card encode infer None
        = ([], JObj [(py ''error'', JStr (py ''Please upload an image.''))])
   \<and> ollama_moondream_parse_business_card encode infer None
        = ([], JObj [(py ''error'', JStr (py ''Please upload an image.''))])
   \<and> new_gradio_parse_business_card llm_None ocr infer' decode_msg None
        = ([], Inr (JObj [(py ''error'', JStr (py ''Please upload an image.''))]))
   \<and> (gradio_app_main llm_is_None chat_handler_is_None encode infer = Some form \<longrightarrow>
        form None = ([], JObj [(py ''error'', JStr (py ''Please upload an image.''))]))"
  by (auto simp: gradio_app_parse_business_card_def ollama_Gradio_parse_business_card_def
        ollama_moondream_parse_business_card_def new_gradio_parse_business_card_def
        error_dict_def gradio_app_main_def)


theorem no_image_uploaded_witness:
  "\<not> False \<and> \<not> False \<and>
   gradio_app_parse_business_card False False (\<lambda>i::unit. Inr []) (\<lambda>u. Inr []) None
     = ([], JObj [(py ''error'', JStr (py ''Please upload an image.''))])
   \<and> gradio_app_main False False (\<lambda>i::unit. Inr []) (\<lambda>u. Inr [])
     = Some (gradio_app_parse_business_card False False (\<lambda>i::unit. Inr []) (\<lambda>u. Inr []))"
  using no_image_uploaded [of False False "\<lambda>i::unit. Inr []" "\<lambda>u. Inr []"
          False "\<lambda>i::unit. Inr []" "\<lambda>u. Inr []" "\<lambda>u. Malformed []"
          "gradio_app_parse_business_card False False (\<lambda>i::unit. Inr []) (\<lambda>u. Inr [])"]
  by (simp add: gradio_app_main_def)

subsection \<open>C1: valid JSON that is not an object\<close>

text \<open>
  C1, as amended. When the candidate text decodes to a value that is not a \<open>dict\<close>,
  \<open>gradio_app.py\<close>, \<open>ollama_Gradio.py\<close> and \<open>ollama_moondream.py\<close> return that value to
  the caller as it is; only \<open>new_gradio.py\<close> returns a failure value, the one of its
  general handler, because storing the OCR text into a value that is not a \<open>dict\<close>
  raises \<open>TypeError\<close>.
\<close>

theorem non_object_json:
  "(json_loads (gradio_app_json_text content) = Some v \<and> \<not> is_dict v \<longrightarrow>
      gradio_app_parsed_data (gradio_app_json_text content) = v)
   \<and> (json_loads (ollama_Gradio_json_text content) = Some v \<and> \<not> is_dict v \<longrightarrow>
      ollama_Gradio_parsed (ollama_Gradio_json_text content) = v)
   \<and> (json_loads (ollama_moondream_json_text content) = Some v \<and> \<not> is_dict v \<longrightarrow>
      ollama_moondream_parsed_data (ollama_moondream_json_text content) = v)
   \<and> (new_gradio_text content = Inr text \<and> json_loads text = Some v \<and> \<not> is_dict v \<longrightarrow>
      (\<exists>msg. new_gradio_repair decode_msg ocr_text content =
         Inr (JObj [(py ''error'', JStr (py ''LLM structuring failed: '' @ msg)),
                    (py ''raw_ocr_text'', JStr ocr_text)])))"
proof -
  have "\<exists>msg. new_gradio_repair decode_msg ocr_text content =
         Inr (JObj [(py ''error'', JStr (py ''LLM structuring failed: '' @ msg)),
                    (py ''raw_ocr_text'', JStr ocr_text)])"
    if t: "new_gradio_text content = Inr text" and l: "json_loads text = Some v"
      and d: "\<not> is_dict v"
  proof -
    obtain msg where "setitem v (py ''_raw_ocr_text'') (JStr ocr_text) = Inl (TypeError, msg)"
      using setitem_not_dict[OF d] by blast
    then show ?thesis
      using l by (simp add: new_gradio_repair_def new_gradio_parsed_text[OF t]
          new_gradio_handlers_def)
  qed
  then show ?thesis
    by (simp add: gradio_app_parsed_data_def ollama_Gradio_parsed_def
        ollama_moondream_parsed_data_def)
qed

theorem non_object_json_witness:
  "json_loads (gradio_app_json_text (py ''null'')) = Some JNull \<and> \<not> is_dict JNull
   \<and> gradio_app_parsed_data (gradio_app_json_text (py ''null'')) = JNull
   \<and> new_gradio_text (py ''null'') = Inr (py ''null'') \<and> json_loads (py ''null'') = Some JNull
   \<and> (\<exists>msg. new_gradio_repair (\<lambda>t. Malformed []) (py ''Jane'') (py ''null'') =
         Inr (JObj [(py ''error'', JStr (py ''LLM structuring failed: '' @ msg)),
                    (py ''raw_ocr_text'', JStr (py ''Jane''))]))"
proof -
  have a: "json_loads (gradio_app_json_text (py ''null'')) = Some JNull"
    by (simp add: str_eval json_eval variant_eval)
  have b: "new_gradio_text (py ''null'') = Inr (py ''null'')"
    by (simp add: str_eval json_eval variant_eval)
  have c: "json_loads (py ''null'') = Some JNull"
    by (simp add: str_eval json_eval variant_eval)
  show ?thesis
    using non_object_json [of "py ''null''" JNull "py ''null''" "\<lambda>t. Malformed []" "py ''Jane''"] a b c
    by simp
qed

theorem bare_array_returned_counterexample:
  "json_loads (gradio_app_json_text (py ''[1]'')) = Some (JArr [JInt 1])
   \<and> gradio_app_parsed_data (gradio_app_json_text (py ''[1]'')) = JArr [JInt 1]"
  by (simp add: str_eval json_eval variant_eval)

subsection \<open>C7: what a successful parse returns\<close>

text \<open>
  C7, as amended. On a successful parse \<open>gradio_app.py\<close>, \<open>ollama_Gradio.py\<close> and
  \<open>ollama_moondream.py\<close> return exactly the decoded value, with nothing added.
  \<open>new_gradio.py\<close> returns the decoded object with the key \<open>_raw_ocr_text\<close> set to the
  OCR text, also on success; every other key of the object keeps its value.
\<close>

theorem successful_parse_result:
  "(json_loads (gradio_app_json_text content) = Some v \<longrightarrow>
      gradio_app_parsed_data (gradio_app_json_text content) = v)
   \<and> (json_loads (ollama_Gradio_json_text content) = Some v \<longrightarrow>
      ollama_Gradio_parsed (ollama_Gradio_json_text content) = v)
   \<and> (json_loads (ollama_moondream_json_text content) = Some v \<longrightarrow>
      ollama_moondream_parsed_data (ollama_moondream_json_text content) = v)
   \<and> (new_gradio_text content = Inr text \<and> json_loads text = Some (JObj d) \<longrightarrow>
      (\<exists>d'. new_gradio_repair decode_msg ocr_text content = Inr (JObj d')
         \<and> d' = dict_set d (py ''_raw_ocr_text'') (JStr ocr_text)
         \<and> map_of d' (py ''_raw_ocr_text'') = Some (JStr ocr_text)
         \<and> (\<forall>k. k \<noteq> py ''_raw_ocr_text'' \<longrightarrow> map_of d' k = map_of d k)))"
proof -
  have "new_gradio_repair decode_msg ocr_text content
          = Inr (JObj (dict_set d (py ''_raw_ocr_text'') (JStr ocr_text)))"
    if t: "new_gradio_text content = Inr text" and l: "json_loads text = Some (JObj d)"
    using l by (simp add: new_gradio_repair_def new_gradio_parsed_text[OF t])
  then show ?thesis
    by (simp add: gradio_app_parsed_data_def ollama_Gradio_parsed_def
        ollama_moondream_parsed_data_def map_of_dict_set)
qed

theorem successful_parse_result_witness:
  \<open>json_loads (gradio_app_json_text (py ''{"fax": "1"}'')) = Some (JObj [(py ''fax'', JStr (py ''1''))])
   \<and> gradio_app_parsed_data (gradio_app_json_text (py ''{"fax": "1"}''))
       = JObj [(py ''fax'', JStr (py ''1''))]
   \<and> new_gradio_text (py ''{"fax": "1"}'') = Inr (py ''{"fax": "1"}'')
   \<and> (\<exists>d'. new_gradio_repair (\<lambda>t. Malformed []) (py ''Jane'') (py ''{"fax": "1"}'') = Inr (JObj d')
         \<and> map_of d' (py ''fax'') = Some (JStr (py ''1'')))\<close>
proof -
  have a: \<open>json_loads (gradio_app_json_text (py ''{"fax": "1"}''))
             = Some (JObj [(py ''fax'', JStr (py ''1''))])\<close>
    by (simp add: str_eval json_eval variant_eval)
  have b: \<open>new_gradio_text (py ''{"fax": "1"}'') = Inr (py ''{"fax": "1"}'')\<close>
    by (simp add: str_eval json_eval variant_eval)
  have c: \<open>json_loads (py ''{"fax": "1"}'') = Some (JObj [(py ''fax'', JStr (py ''1''))])\<close>
    by (simp add: str_eval json_eval variant_eval)
  show ?thesis
    using successful_parse_result
            [of \<open>py ''{"fax": "1"}''\<close> \<open>JObj [(py ''fax'', JStr (py ''1''))]\<close>
                \<open>py ''{"fax": "1"}''\<close> \<open>[(py ''fax'', JStr (py ''1''))]\<close> \<open>\<lambda>t. Malformed []\<close> \<open>py ''Jane''\<close>]
          a b c
    by simp
qed

theorem ocr_text_added_on_success_counterexample:
  "json_loads (py ''{}'') = Some (JObj [])
   \<and> new_gradio_text (py ''{}'') = Inr (py ''{}'')
   \<and> new_gradio_repair (\<lambda>t. Malformed []) (py ''Jane'') (py ''{}'')
       = Inr (JObj [(py ''_raw_ocr_text'', JStr (py ''Jane''))])
   \<and> new_gradio_repair (\<lambda>t. Malformed []) (py ''Jane'') (py ''{}'') \<noteq> Inr (JObj [])"
  by (simp add: str_eval json_eval variant_eval)

subsection \<open>C6: what a failed parse returns\<close>




subsection \<open>C5: a reply without braces\<close>

text \<open>
  C5, as amended. Let the stripped reply be no valid JSON. Then \<open>gradio_app.py\<close> and
  \<open>ollama_Gradio.py\<close> return a failure value whose \<open>raw_output\<close> is the stripped reply when
  it does not start with \<open>```json\<close>, and \<open>ollama_moondream.py\<close> when it starts with no
  backquote; braces play no part in these three files. When the reply holds no fence and not
  both braces, \<open>new_gradio.py\<close> returns a failure value whose \<open>llm_output\<close> is the stripped
  reply if the decoder raised \<open>JSONDecodeError\<close>, and the value of its general handler,
  which holds the message and the OCR text but not the reply, if the decoder stopped with
  \<open>RecursionError\<close> or \<open>ValueError\<close>. Let the stripped reply hold not both braces and
  be valid JSON, which the decoder turns into a value. Then that value is not a \<open>dict\<close>;
  the first three files return it, and it is no failure value; \<open>new_gradio.py\<close>, when the
  reply holds no fence, returns the value of its general handler with the message of the
  \<open>TypeError\<close>.
\<close>

theorem no_braces_failure:
  "(json_loads (py_strip content) = None \<longrightarrow>
     (\<not> startswith (py_strip content) (py ''```json'') \<longrightarrow>
        gradio_app_parsed_data (gradio_app_json_text content)
          = JObj [(py ''error'', JStr (py ''Failed to parse VLM output as JSON.'')),
                  (py ''raw_output'', JStr (py_strip content))]
        \<and> ollama_Gradio_parsed (ollama_Gradio_json_text content)
          = JObj [(py ''error'', JStr (py ''Failed to parse model output as JSON.'')),
                  (py ''raw_output'', JStr (py_strip content))])
     \<and> (\<not> startswith (py_strip content) (py ''`'') \<longrightarrow>
        ollama_moondream_parsed_data (ollama_moondream_json_text content)
          = JObj [(py ''error'', JStr (py ''Failed to parse VLM output as JSON.'')),
                  (py ''raw_output'', JStr (py_strip content))])
     \<and> (\<not> py_in (py ''```'') (py_strip content)
          \<and> \<not> (py_in (py ''{'') (py_strip content) \<and> py_in (py ''}'') (py_strip content)) \<longrightarrow>
        (\<forall>msg. decode_error (py_strip content) = Malformed msg \<longrightarrow>
           new_gradio_repair decode_error ocr_text content
             = Inr (JObj [(py ''error'', JStr (py ''Failed to parse JSON from LLM'')),
                          (py ''raw_ocr_text'', JStr ocr_text),
                          (py ''llm_output'', JStr (py_strip content)),
                          (py ''parse_error'', JStr msg)]))
        \<and> (\<forall>msg. decode_error (py_strip content) = TooDeep msg
                  \<or> decode_error (py_strip content) = TooManyDigits msg \<longrightarrow>
           new_gradio_repair decode_error ocr_text content
             = Inr (JObj [(py ''error'', JStr (py ''LLM structuring failed: '' @ msg)),
                          (py ''raw_ocr_text'', JStr ocr_text)]))))
   \<and> (json_loads (py_strip content) = Some v
        \<and> \<not> (py_in (py ''{'') (py_strip content) \<and> py_in (py ''}'') (py_strip content)) \<longrightarrow>
        \<not> is_dict v
        \<and> gradio_app_parsed_data (gradio_app_json_text content) = v
        \<and> ollama_Gradio_parsed (ollama_Gradio_json_text content) = v
        \<and> ollama_moondream_parsed_data (ollama_moondream_json_text content) = v
        \<and> (\<not> py_in (py ''```'') (py_strip content) \<longrightarrow>
             (\<exists>msg. new_gradio_repair decode_error ocr_text content
                = Inr (JObj [(py ''error'', JStr (py ''LLM structuring failed: '' @ msg)),
                             (py ''raw_ocr_text'', JStr ocr_text)]))))"
proof -
  let ?s = "py_strip content"
  have moon: "\<not> startswith ?s (py ''`'') \<Longrightarrow> ollama_moondream_json_text content = ?s"
    by (auto simp: ollama_moondream_json_text_def startswith_def Let_def prefix_def)
  have app: "\<not> startswith ?s (py ''```json'') \<Longrightarrow> gradio_app_json_text content = ?s"
    by (simp add: gradio_app_json_text_def)
  have oll: "\<not> startswith ?s (py ''```json'') \<Longrightarrow> ollama_Gradio_json_text content = ?s"
    by (simp add: ollama_Gradio_json_text_def)
  have new: "new_gradio_text content = Inr ?s"
    if "\<not> py_in (py ''```'') ?s" "\<not> (py_in (py ''{'') ?s \<and> py_in (py ''}'') ?s)"
    using that no_fence_no_json_fence[OF that(1)]
    by (auto simp: new_gradio_text_def new_gradio_unfenced_def new_gradio_braces_def bind_exn_def)
  have invalid: "json_loads ?s = None \<longrightarrow>
     (\<not> startswith ?s (py ''```json'') \<longrightarrow>
        gradio_app_parsed_data (gradio_app_json_text content)
          = JObj [(py ''error'', JStr (py ''Failed to parse VLM output as JSON.'')),
                  (py ''raw_output'', JStr ?s)]
        \<and> ollama_Gradio_parsed (ollama_Gradio_json_text content)
          = JObj [(py ''error'', JStr (py ''Failed to parse model output as JSON.'')),
                  (py ''raw_output'', JStr ?s)])
     \<and> (\<not> startswith ?s (py ''`'') \<longrightarrow>
        ollama_moondream_parsed_data (ollama_moondream_json_text content)
          = JObj [(py ''error'', JStr (py ''Failed to parse VLM output as JSON.'')),
                  (py ''raw_output'', JStr ?s)])
     \<and> (\<not> py_in (py ''```'') ?s \<and> \<not> (py_in (py ''{'') ?s \<and> py_in (py ''}'') ?s) \<longrightarrow>
        (\<forall>msg. decode_error ?s = Malformed msg \<longrightarrow>
           new_gradio_repair decode_error ocr_text content
             = Inr (JObj [(py ''error'', JStr (py ''Failed to parse JSON from LLM'')),
                          (py ''raw_ocr_text'', JStr ocr_text),
                          (py ''llm_output'', JStr ?s),
                          (py ''parse_error'', JStr msg)]))
        \<and> (\<forall>msg. decode_error ?s = TooDeep msg \<or> decode_error ?s = TooManyDigits msg \<longrightarrow>
           new_gradio_repair decode_error ocr_text content
             = Inr (JObj [(py ''error'', JStr (py ''LLM structuring failed: '' @ msg)),
                          (py ''raw_ocr_text'', JStr ocr_text)])))"
    using moon
    by (auto simp: gradio_app_parsed_data_def ollama_Gradio_parsed_def
        ollama_moondream_parsed_data_def gradio_app_json_text_def ollama_Gradio_json_text_def
        new_gradio_repair_def new_gradio_parsed_text[OF new] new_gradio_handlers_def)
  have valid: "\<not> is_dict v
        \<and> gradio_app_parsed_data (gradio_app_json_text content) = v
        \<and> ollama_Gradio_parsed (ollama_Gradio_json_text content) = v
        \<and> ollama_moondream_parsed_data (ollama_moondream_json_text content) = v
        \<and> (\<not> py_in (py ''```'') ?s \<longrightarrow>
             (\<exists>msg. new_gradio_repair decode_error ocr_text content
                = Inr (JObj [(py ''error'', JStr (py ''LLM structuring failed: '' @ msg)),
                             (py ''raw_ocr_text'', JStr ocr_text)])))"
    if l: "json_loads ?s = Some v"
      and b: "\<not> (py_in (py ''{'') ?s \<and> py_in (py ''}'') ?s)"
  proof -
    have nb: "\<not> startswith ?s (py ''`'')"
    proof
      assume "startswith ?s (py ''`'')"
      then obtain r where "?s = 0x60 # r"
        by (auto simp: startswith_def prefix_def)
      with l json_loads_not_backquote[of r] show False by simp
    qed
    have nf: "\<not> startswith ?s (py ''```json'')"
    proof
      assume "startswith ?s (py ''```json'')"
      then obtain r where "?s = 0x60 # r"
        by (auto simp: startswith_def prefix_def)
      with l json_loads_not_backquote[of r] show False by simp
    qed
    have nd: "\<not> is_dict v"
    proof
      assume "is_dict v"
      then obtain d where v: "v = JObj d" by (cases v) auto
      note o = json_loads_object_braces[OF l[unfolded v]]
      obtain w1 w2 where w: "?s = w1 @ py_strip ?s @ w2"
        using strip_by_decomp[of ?s isspace] unfolding py_strip_def by blast
      have "hd (py_strip ?s) \<in> set (py_strip ?s)" "last (py_strip ?s) \<in> set (py_strip ?s)"
        using o(1) by simp_all
      then have "0x7B \<in> set (py_strip ?s)" "0x7D \<in> set (py_strip ?s)"
        using o(2,3) by simp_all
      then have "0x7B \<in> set ?s" "0x7D \<in> set ?s"
        by (subst w, simp)+
      then have "py_in (py ''{'') ?s \<and> py_in (py ''}'') ?s"
        using py_in_single[of "0x7B" ?s] py_in_single[of "0x7D" ?s] by simp
      with b show False by simp
    qed
    have g: "\<exists>msg. new_gradio_repair decode_error ocr_text content
                = Inr (JObj [(py ''error'', JStr (py ''LLM structuring failed: '' @ msg)),
                             (py ''raw_ocr_text'', JStr ocr_text)])"
      if f: "\<not> py_in (py ''```'') ?s"
    proof -
      obtain msg where "setitem v (py ''_raw_ocr_text'') (JStr ocr_text) = Inl (TypeError, msg)"
        using setitem_not_dict[OF nd] by blast
      then show ?thesis
        using l by (simp add: new_gradio_repair_def new_gradio_parsed_text[OF new[OF f b]]
            new_gradio_handlers_def)
    qed
    show ?thesis
      using nd g l
      by (simp add: gradio_app_parsed_data_def ollama_Gradio_parsed_def
          ollama_moondream_parsed_data_def app[OF nf] oll[OF nf] moon[OF nb])
  qed
  from invalid valid show ?thesis by blast
qed

theorem no_braces_failure_witness:
  \<open>json_loads (py_strip (py '' Jane Doe '')) = None
   \<and> \<not> startswith (py_strip (py '' Jane Doe '')) (py ''```json'')
   \<and> \<not> startswith (py_strip (py '' Jane Doe '')) (py ''`'')
   \<and> \<not> py_in (py ''```'') (py_strip (py '' Jane Doe ''))
   \<and> \<not> (py_in (py ''{'') (py_strip (py '' Jane Doe ''))
          \<and> py_in (py ''}'') (py_strip (py '' Jane Doe '')))
   \<and> gradio_app_parsed_data (gradio_app_json_text (py '' Jane Doe ''))
        = JObj [(py ''error'', JStr (py ''Failed to parse VLM output as JSON.'')),
                (py ''raw_output'', JStr (py ''Jane Doe''))]
   \<and> new_gradio_repair (\<lambda>t. Malformed []) (py ''Jane'') (py '' Jane Doe '')
        = Inr (JObj [(py ''error'', JStr (py ''Failed to parse JSON from LLM'')),
                     (py ''raw_ocr_text'', JStr (py ''Jane'')),
                     (py ''llm_output'', JStr (py ''Jane Doe'')),
                     (py ''parse_error'', JStr [])])
   \<and> new_gradio_repair (\<lambda>t. TooManyDigits (py ''limit'')) (py ''Jane'') (py '' Jane Doe '')
        = Inr (JObj [(py ''error'', JStr (py ''LLM structuring failed: limit'')),
                     (py ''raw_ocr_text'', JStr (py ''Jane''))])
   \<and> json_loads (py_strip (py '' "Jane" '')) = Some (JStr (py ''Jane''))
   \<and> \<not> py_in (py ''```'') (py_strip (py '' "Jane" ''))
   \<and> \<not> (py_in (py ''{'') (py_strip (py '' "Jane" ''))
          \<and> py_in (py ''}'') (py_strip (py '' "Jane" '')))
   \<and> \<not> is_dict (JStr (py ''Jane''))
   \<and> gradio_app_parsed_data (gradio_app_json_text (py '' "Jane" '')) = JStr (py ''Jane'')
   \<and> ollama_moondream_parsed_data (ollama_moondream_json_text (py '' "Jane" ''))
        = JStr (py ''Jane'')
   \<and> (\<exists>msg. new_gradio_repair (\<lambda>t. Malformed []) (py ''Jane'') (py '' "Jane" '')
        = Inr (JObj [(py ''error'', JStr (py ''LLM structuring failed: '' @ msg)),
                     (py ''raw_ocr_text'', JStr (py ''Jane''))]))\<close>
proof -
  have s: "py_strip (py '' Jane Doe '') = py ''Jane Doe''"
    by (simp add: str_eval)
  have a: "json_loads (py_strip (py '' Jane Doe '')) = None"
    unfolding s by (simp add: str_eval json_eval)
  have b: "\<not> startswith (py_strip (py '' Jane Doe '')) (py ''```json'')"
    unfolding s by (simp add: str_eval)
  have c: "\<not> startswith (py_strip (py '' Jane Doe '')) (py ''`'')"
    unfolding s by (simp add: str_eval)
  have d: "\<not> py_in (py ''```'') (py_strip (py '' Jane Doe ''))"
    unfolding s by (simp add: str_eval)
  have e: "\<not> (py_in (py ''{'') (py_strip (py '' Jane Doe ''))
          \<and> py_in (py ''}'') (py_strip (py '' Jane Doe '')))"
    unfolding s by (simp add: str_eval)
  note w = no_braces_failure [where content = "py '' Jane Doe ''"
      and decode_error = "\<lambda>t. Malformed []" and ocr_text = "py ''Jane''" and v = JNull]
  note x = no_braces_failure [where content = "py '' Jane Doe ''"
      and decode_error = "\<lambda>t. TooManyDigits (py ''limit'')" and ocr_text = "py ''Jane''"
      and v = JNull]
  from w a b have "gradio_app_parsed_data (gradio_app_json_text (py '' Jane Doe ''))
        = JObj [(py ''error'', JStr (py ''Failed to parse VLM output as JSON.'')),
                (py ''raw_output'', JStr (py_strip (py '' Jane Doe '')))]"
    by blast
  then have r1: "gradio_app_parsed_data (gradio_app_json_text (py '' Jane Doe ''))
        = JObj [(py ''error'', JStr (py ''Failed to parse VLM output as JSON.'')),
                (py ''raw_output'', JStr (py ''Jane Doe''))]"
    unfolding s .
  from w a d e have "new_gradio_repair (\<lambda>t. Malformed []) (py ''Jane'') (py '' Jane Doe '')
        = Inr (JObj [(py ''error'', JStr (py ''Failed to parse JSON from LLM'')),
                     (py ''raw_ocr_text'', JStr (py ''Jane'')),
                     (py ''llm_output'', JStr (py_strip (py '' Jane Doe ''))),
                     (py ''parse_error'', JStr [])])"
    by blast
  then have r2: "new_gradio_repair (\<lambda>t. Malformed []) (py ''Jane'') (py '' Jane Doe '')
        = Inr (JObj [(py ''error'', JStr (py ''Failed to parse JSON from LLM'')),
                     (py ''raw_ocr_text'', JStr (py ''Jane'')),
                     (py ''llm_output'', JStr (py ''Jane Doe'')),
                     (py ''parse_error'', JStr [])])"
    unfolding s .
  from x a d e have "new_gradio_repair (\<lambda>t. TooManyDigits (py ''limit'')) (py ''Jane'')
         (py '' Jane Doe '')
        = Inr (JObj [(py ''error'', JStr (py ''LLM structuring failed: '' @ py ''limit'')),
                     (py ''raw_ocr_text'', JStr (py ''Jane''))])"
    by blast
  then have r3: "new_gradio_repair (\<lambda>t. TooManyDigits (py ''limit'')) (py ''Jane'')
         (py '' Jane Doe '')
        = Inr (JObj [(py ''error'', JStr (py ''LLM structuring failed: limit'')),
                     (py ''raw_ocr_text'', JStr (py ''Jane''))])"
    by simp
  have f: \<open>json_loads (py_strip (py '' "Jane" '')) = Some (JStr (py ''Jane''))\<close>
    by (simp add: str_eval json_eval)
  have g: \<open>\<not> py_in (py ''```'') (py_strip (py '' "Jane" ''))\<close>
    by (simp add: str_eval)
  have h: \<open>\<not> (py_in (py ''{'') (py_strip (py '' "Jane" ''))
          \<and> py_in (py ''}'') (py_strip (py '' "Jane" '')))\<close>
    by (simp add: str_eval)
  note y = no_braces_failure [where content = \<open>py '' "Jane" ''\<close>
      and decode_error = "\<lambda>t. Malformed []" and ocr_text = "py ''Jane''"
      and v = "JStr (py ''Jane'')"]
  from y f h have r4: \<open>\<not> is_dict (JStr (py ''Jane''))
   \<and> gradio_app_parsed_data (gradio_app_json_text (py '' "Jane" '')) = JStr (py ''Jane'')
   \<and> ollama_moondream_parsed_data (ollama_moondream_json_text (py '' "Jane" ''))
        = JStr (py ''Jane'')\<close>
    by blast
  from y f g h have r5: \<open>\<exists>msg. new_gradio_repair (\<lambda>t. Malformed []) (py ''Jane'') (py '' "Jane" '')
        = Inr (JObj [(py ''error'', JStr (py ''LLM structuring failed: '' @ msg)),
                     (py ''raw_ocr_text'', JStr (py ''Jane''))])\<close>
    by blast
  from a b c d e r1 r2 r3 f g h r4 r5 show ?thesis by blast
qed

theorem no_braces_counterexample:
  \<open>\<not> py_in (py ''{'') (py ''"Jane"'') \<and> \<not> py_in (py ''}'') (py ''"Jane"'')
   \<and> gradio_app_parsed_data (gradio_app_json_text (py ''"Jane"'')) = JStr (py ''Jane'')
   \<and> \<not> py_in (py ''{'') (py ''```json Jane```'') \<and> \<not> py_in (py ''}'') (py ''```json Jane```'')
   \<and> gradio_app_parsed_data (gradio_app_json_text (py ''```json Jane```''))
        = JObj [(py ''error'', JStr (py ''Failed to parse VLM output as JSON.'')),
                (py ''raw_output'', JStr (py ''Jane''))]
   \<and> py_strip (py ''```json Jane```'') \<noteq> py ''Jane''\<close>
  by (simp add: str_eval json_eval variant_eval)

subsection \<open>C2: a closing brace inside a string value\<close>

text \<open>
  C2, as amended. For the literal input \<open>{"name": "A", "note": "uses a } brace"}\<close> the
  repair pass neither fails nor truncates. \<open>new_gradio.py\<close> cuts at the last \<open>}\<close> of the
  text, which here is the true closing brace, so the candidate is the whole literal; the
  other three files cut at no brace at all. Every variant decodes both keys, and
  \<open>new_gradio.py\<close> adds \<open>_raw_ocr_text\<close>.
\<close>

theorem brace_in_string_parses:
  \<open>gradio_app_parsed_data (gradio_app_json_text (py ''{"name": "A", "note": "uses a } brace"}'')) = JObj [(py ''name'', JStr (py ''A'')), (py ''note'', JStr (py ''uses a } brace''))]
   \<and> ollama_Gradio_parsed (ollama_Gradio_json_text (py ''{"name": "A", "note": "uses a } brace"}'')) = JObj [(py ''name'', JStr (py ''A'')), (py ''note'', JStr (py ''uses a } brace''))]
   \<and> ollama_moondream_parsed_data (ollama_moondream_json_text (py ''{"name": "A", "note": "uses a } brace"}'')) = JObj [(py ''name'', JStr (py ''A'')), (py ''note'', JStr (py ''uses a } brace''))]
   \<and> new_gradio_repair decode_msg ocr_text (py ''{"name": "A", "note": "uses a } brace"}'')
       = Inr (JObj [(py ''name'', JStr (py ''A'')), (py ''note'', JStr (py ''uses a } brace'')),
                    (py ''_raw_ocr_text'', JStr ocr_text)])\<close>
  by (simp add: str_eval json_eval variant_eval)

theorem brace_in_string_not_truncated_counterexample:
  \<open>new_gradio_text (py ''{"name": "A", "note": "uses a } brace"}'') = Inr (py ''{"name": "A", "note": "uses a } brace"}'')
   \<and> json_loads (py ''{"name": "A", "note": "uses a } brace"}'') = Some (JObj [(py ''name'', JStr (py ''A'')), (py ''note'', JStr (py ''uses a } brace''))])
   \<and> new_gradio_repair (\<lambda>t. Malformed []) (py ''Jane'') (py ''{"name": "A", "note": "uses a } brace"}'')
       = Inr (JObj [(py ''name'', JStr (py ''A'')), (py ''note'', JStr (py ''uses a } brace'')),
                    (py ''_raw_ocr_text'', JStr (py ''Jane''))])\<close>
  by (simp add: str_eval json_eval variant_eval)

subsection \<open>C3: prose around the object\<close>

text \<open>
  C3, as amended. For the literal input
  \<open>Sure! Here is the data: {"name": "A"} Let me know if you need more.\<close> only
  \<open>new_gradio.py\<close> discards the prose: its candidate is \<open>{"name": "A"}\<close> and it returns
  the object \<open>{"name": "A"}\<close> with \<open>_raw_ocr_text\<close> added. The other three files extract no
  braces: they hand the whole sentence to the decoder and return a failure value with the
  sentence as \<open>raw_output\<close>.
\<close>

theorem prose_around_object:
  \<open>new_gradio_text (py ''Sure! Here is the data: {"name": "A"} Let me know if you need more.'') = Inr (py ''{"name": "A"}'')
   \<and> new_gradio_repair decode_msg ocr_text (py ''Sure! Here is the data: {"name": "A"} Let me know if you need more.'')
       = Inr (JObj [(py ''name'', JStr (py ''A'')), (py ''_raw_ocr_text'', JStr ocr_text)])
   \<and> gradio_app_parsed_data (gradio_app_json_text (py ''Sure! Here is the data: {"name": "A"} Let me know if you need more.''))
       = JObj [(py ''error'', JStr (py ''Failed to parse VLM output as JSON.'')),
               (py ''raw_output'', JStr (py ''Sure! Here is the data: {"name": "A"} Let me know if you need more.''))]
   \<and> ollama_Gradio_parsed (ollama_Gradio_json_text (py ''Sure! Here is the data: {"name": "A"} Let me know if you need more.''))
       = JObj [(py ''error'', JStr (py ''Failed to parse model output as JSON.'')),
               (py ''raw_output'', JStr (py ''Sure! Here is the data: {"name": "A"} Let me know if you need more.''))]
   \<and> ollama_moondream_parsed_data (ollama_moondream_json_text (py ''Sure! Here is the data: {"name": "A"} Let me know if you need more.''))
       = JObj [(py ''error'', JStr (py ''Failed to parse VLM output as JSON.'')),
               (py ''raw_output'', JStr (py ''Sure! Here is the data: {"name": "A"} Let me know if you need more.''))]\<close>
  by (simp add: str_eval json_eval variant_eval)

theorem prose_not_discarded_counterexample:
  \<open>gradio_app_parsed_data (gradio_app_json_text (py ''Sure! Here is the data: {"name": "A"} Let me know if you need more.''))
     \<noteq> JObj [(py ''name'', JStr (py ''A''))]
   \<and> new_gradio_repair (\<lambda>t. Malformed []) (py ''Jane'') (py ''Sure! Here is the data: {"name": "A"} Let me know if you need more.'')
     \<noteq> Inr (JObj [(py ''name'', JStr (py ''A''))])\<close>
  by (simp add: str_eval json_eval variant_eval)

subsection \<open>C8: the conversation of the chat loop\<close>

text \<open>
  C8, as amended. In both command-line scripts the conversation only grows at its end:
  what it holds after some passes of the loop is a prefix of what it holds after more.
  Every assistant turn directly follows a user turn, so the list begins with a user turn.
  User and assistant turns alternate strictly as long as no completion has raised.
\<close>

theorem chat_conversation_order:
  "prefix (llama_cli_chat_mode turns) (llama_cli_chat_mode (turns @ later))
   \<and> answered (map fst (llama_cli_chat_mode turns))
   \<and> ((\<forall>t\<in>set turns. \<exists>chunks. completion t = Inr chunks) \<longrightarrow>
        alternating (map fst (llama_cli_chat_mode turns)))
   \<and> prefix (moondream_cli_chat_mode turns) (moondream_cli_chat_mode (turns @ later))
   \<and> answered (map fst (moondream_cli_chat_mode turns))
   \<and> ((\<forall>t\<in>set turns. \<exists>chunks. completion t = Inr chunks) \<longrightarrow>
        alternating (map fst (moondream_cli_chat_mode turns)))"
proof -
  have grow: "prefix (chat_loop (chat_turn sp) turns []) (chat_loop (chat_turn sp) (turns @ later) [])"
    for sp
    using chat_loop_append[of "chat_turn sp" turns later "[]"]
      chat_loop_prefix[of "chat_loop (chat_turn sp) turns []" sp later]
    by auto
  have order: "answered (map fst (chat_loop (chat_turn sp) turns []))" for sp
    by (rule chat_loop_answered) simp
  have strict: "alternating (map fst (chat_loop (chat_turn sp) turns []))"
    if "\<forall>t\<in>set turns. \<exists>chunks. completion t = Inr chunks" for sp
    using chat_loop_alternating[OF that, of "[]" sp] by simp
  show ?thesis
    unfolding llama_cli_chat_mode_def moondream_cli_chat_mode_def
    using grow order strict by blast
qed

theorem chat_conversation_order_witness:
  "completion \<lparr>input_line = Inr (py ''hello''), path_exists = False,
                 image_uri = Inl (OtherException, []), completion = Inr [py ''Hi'', py ''!'']\<rparr>
      = Inr [py ''Hi'', py ''!'']
   \<and> alternating (map fst (llama_cli_chat_mode
        [\<lparr>input_line = Inr (py ''hello''), path_exists = False,
          image_uri = Inl (OtherException, []), completion = Inr [py ''Hi'', py ''!'']\<rparr>]))
   \<and> llama_cli_chat_mode
        [\<lparr>input_line = Inr (py ''hello''), path_exists = False,
          image_uri = Inl (OtherException, []), completion = Inr [py ''Hi'', py ''!'']\<rparr>]
      = [(User, Text (py ''hello'')), (Assistant, Text (py ''Hi!''))]"
proof -
  have h: "\<forall>t\<in>set [\<lparr>input_line = Inr (py ''hello''), path_exists = False,
                 image_uri = Inl (OtherException, []), completion = Inr [py ''Hi'', py ''!'']\<rparr>].
      \<exists>chunks. completion t = Inr chunks"
    by simp
  have v: "llama_cli_chat_mode
        [\<lparr>input_line = Inr (py ''hello''), path_exists = False,
          image_uri = Inl (OtherException, []), completion = Inr [py ''Hi'', py ''!'']\<rparr>]
      = [(User, Text (py ''hello'')), (Assistant, Text (py ''Hi!''))]"
    by (simp add: chat_eval str_eval)
  from chat_conversation_order
         [of "[\<lparr>input_line = Inr (py ''hello''), path_exists = False,
                image_uri = Inl (OtherException, []), completion = Inr [py ''Hi'', py ''!'']\<rparr>]" "[]"]
       h
  have "alternating (map fst (llama_cli_chat_mode
        [\<lparr>input_line = Inr (py ''hello''), path_exists = False,
          image_uri = Inl (OtherException, []), completion = Inr [py ''Hi'', py ''!'']\<rparr>]))"
    by blast
  moreover have "completion \<lparr>input_line = Inr (py ''hello''), path_exists = False,
                 image_uri = Inl (OtherException, []), completion = Inr [py ''Hi'', py ''!'']\<rparr>
      = Inr [py ''Hi'', py ''!'']"
    by simp
  ultimately show ?thesis using v by blast
qed

theorem two_user_turns_in_a_row_counterexample:
  "llama_cli_chat_mode
     [\<lparr>input_line = Inr (py ''hello''), path_exists = False,
       image_uri = Inl (OtherException, []),
       completion = Inl (OtherException, py ''out of memory'')\<rparr>,
      \<lparr>input_line = Inr (py ''hello again''), path_exists = False,
       image_uri = Inl (OtherException, []), completion = Inr [py ''Hi!'']\<rparr>]
   = [(User, Text (py ''hello'')), (User, Text (py ''hello again'')),
      (Assistant, Text (py ''Hi!''))]
   \<and> \<not> alternating [User, User, Assistant]"
  by (simp add: chat_eval str_eval)

subsection \<open>C4: a JSON text between fences\<close>

text \<open>
  C4, as amended. Let the reply be a JSON text between a leading fence and a trailing fence
  \<open>```\<close>, with white space allowed before and after. When the leading fence is
  \<open>```json\<close>, \<open>gradio_app.py\<close>, \<open>ollama_Gradio.py\<close> and \<open>ollama_moondream.py\<close> return what
  decoding the interior returns. When the leading fence carries no language tag,
  \<open>ollama_moondream.py\<close> still does; \<open>gradio_app.py\<close> and \<open>ollama_Gradio.py\<close> cut no bare
  fence and return their failure value, whose \<open>raw_output\<close> is the stripped reply with its
  fences. \<open>new_gradio.py\<close> treats the two fences alike: when the interior holds no \<open>```\<close>
  of its own, it returns what it returns for the interior alone, and for an interior that
  decodes to an object this is the object with the key \<open>_raw_ocr_text\<close> set to the OCR text,
  not the object as decoded. An interior that holds \<open>```\<close>, inside a string say, is cut
  there: the fenced \<open>{"a": "x```y"}\<close> gives the failure value with \<open>llm_output\<close>
  \<open>{"a": "x\<close>. An interior that is no object goes through the span of the braces: the
  fenced \<open>[{"a": 1}]\<close> comes back as the object inside it, with \<open>_raw_ocr_text\<close>. For the
  literal input of the specification the first three files return
  \<open>{"name": "Jane Doe", "title": null}\<close>, and \<open>new_gradio.py\<close> returns it with
  \<open>_raw_ocr_text\<close> added.
\<close>

theorem fenced_json:
  \<open>((\<forall>c\<in>set lead. isspace c) \<and> (\<forall>c\<in>set trail. isspace c) \<and> json_loads interior = Some v \<longrightarrow>
      gradio_app_parsed_data
        (gradio_app_json_text (lead @ py ''```json'' @ interior @ py ''```'' @ trail)) = v
      \<and> ollama_Gradio_parsed
        (ollama_Gradio_json_text (lead @ py ''```json'' @ interior @ py ''```'' @ trail)) = v
      \<and> ollama_moondream_parsed_data
        (ollama_moondream_json_text (lead @ py ''```json'' @ interior @ py ''```'' @ trail)) = v
      \<and> ollama_moondream_parsed_data
        (ollama_moondream_json_text (lead @ py ''```'' @ interior @ py ''```'' @ trail)) = v)
   \<and> ((\<forall>c\<in>set lead. isspace c) \<and> (\<forall>c\<in>set trail. isspace c) \<and> json_loads interior = Some v \<longrightarrow>
      gradio_app_parsed_data
        (gradio_app_json_text (lead @ py ''```'' @ interior @ py ''```'' @ trail))
        = JObj [(py ''error'', JStr (py ''Failed to parse VLM output as JSON.'')),
                (py ''raw_output'', JStr (py ''```'' @ interior @ py ''```''))]
      \<and> ollama_Gradio_parsed
        (ollama_Gradio_json_text (lead @ py ''```'' @ interior @ py ''```'' @ trail))
        = JObj [(py ''error'', JStr (py ''Failed to parse model output as JSON.'')),
                (py ''raw_output'', JStr (py ''```'' @ interior @ py ''```''))])
   \<and> ((\<forall>c\<in>set lead. isspace c) \<and> (\<forall>c\<in>set trail. isspace c) \<and> json_loads interior = Some v
        \<and> \<not> py_in (py ''```'') interior \<longrightarrow>
      new_gradio_repair decode_error ocr_text (lead @ py ''```json'' @ interior @ py ''```'' @ trail)
        = new_gradio_repair decode_error ocr_text interior
      \<and> new_gradio_repair decode_error ocr_text (lead @ py ''```'' @ interior @ py ''```'' @ trail)
        = new_gradio_repair decode_error ocr_text interior)
   \<and> ((\<forall>c\<in>set lead. isspace c) \<and> (\<forall>c\<in>set trail. isspace c)
        \<and> json_loads interior = Some (JObj d) \<and> \<not> py_in (py ''```'') interior \<longrightarrow>
      new_gradio_repair decode_error ocr_text (lead @ py ''```json'' @ interior @ py ''```'' @ trail)
        = Inr (JObj (dict_set d (py ''_raw_ocr_text'') (JStr ocr_text)))
      \<and> new_gradio_repair decode_error ocr_text (lead @ py ''```'' @ interior @ py ''```'' @ trail)
        = Inr (JObj (dict_set d (py ''_raw_ocr_text'') (JStr ocr_text))))
   \<and> gradio_app_parsed_data (gradio_app_json_text (py ''```json'' @ [0x0A] @ py ''{"name": "Jane Doe", "title": null}'' @ [0x0A] @ py ''```'')) = JObj [(py ''name'', JStr (py ''Jane Doe'')), (py ''title'', JNull)]
   \<and> ollama_Gradio_parsed (ollama_Gradio_json_text (py ''```json'' @ [0x0A] @ py ''{"name": "Jane Doe", "title": null}'' @ [0x0A] @ py ''```'')) = JObj [(py ''name'', JStr (py ''Jane Doe'')), (py ''title'', JNull)]
   \<and> ollama_moondream_parsed_data (ollama_moondream_json_text (py ''```json'' @ [0x0A] @ py ''{"name": "Jane Doe", "title": null}'' @ [0x0A] @ py ''```'')) = JObj [(py ''name'', JStr (py ''Jane Doe'')), (py ''title'', JNull)]
   \<and> new_gradio_repair decode_error ocr_text (py ''```json'' @ [0x0A] @ py ''{"name": "Jane Doe", "title": null}'' @ [0x0A] @ py ''```'')
       = Inr (JObj [(py ''name'', JStr (py ''Jane Doe'')), (py ''title'', JNull),
                    (py ''_raw_ocr_text'', JStr ocr_text)])
   \<and> json_loads (py ''{"a": "x```y"}'') = Some (JObj [(py ''a'', JStr (py ''x```y''))])
   \<and> new_gradio_repair (\<lambda>t. Malformed msg) ocr_text
         (py ''```json'' @ [0x0A] @ py ''{"a": "x```y"}'' @ [0x0A] @ py ''```'')
       = Inr (JObj [(py ''error'', JStr (py ''Failed to parse JSON from LLM'')),
                    (py ''raw_ocr_text'', JStr ocr_text),
                    (py ''llm_output'', JStr (py ''{"a": "x'')),
                    (py ''parse_error'', JStr msg)])
   \<and> new_gradio_repair decode_error ocr_text
         (py ''```json'' @ [0x0A] @ py ''[{"a": 1}]'' @ [0x0A] @ py ''```'')
       = Inr (JObj [(py ''a'', JInt 1), (py ''_raw_ocr_text'', JStr ocr_text)])\<close>
proof -
  have general:
    "gradio_app_parsed_data
        (gradio_app_json_text (lead @ py ''```json'' @ interior @ py ''```'' @ trail)) = v
      \<and> ollama_Gradio_parsed
        (ollama_Gradio_json_text (lead @ py ''```json'' @ interior @ py ''```'' @ trail)) = v
      \<and> ollama_moondream_parsed_data
        (ollama_moondream_json_text (lead @ py ''```json'' @ interior @ py ''```'' @ trail)) = v
      \<and> ollama_moondream_parsed_data
        (ollama_moondream_json_text (lead @ py ''```'' @ interior @ py ''```'' @ trail)) = v"
    if ws: "\<forall>c\<in>set lead. isspace c" "\<forall>c\<in>set trail. isspace c"
      and l: "json_loads interior = Some v"
  proof -
    note cut = json_fence_cut[OF ws, of interior]
    have tagged: "startswith (py ''```json'' @ interior @ py ''```'') (py ''```json'')"
      by (simp add: startswith_def)
    have inner: "json_loads (py_strip interior) = Some v"
      by (rule json_loads_py_strip[OF l])
    have t1: "gradio_app_json_text (lead @ py ''```json'' @ interior @ py ''```'' @ trail)
                = py_strip interior"
      unfolding gradio_app_json_text_def Let_def cut(1) using tagged by (simp only: cut(2) if_True)
    have t2: "ollama_Gradio_json_text (lead @ py ''```json'' @ interior @ py ''```'' @ trail)
                = py_strip interior"
      unfolding ollama_Gradio_json_text_def Let_def cut(1) using tagged
      by (simp only: cut(2) if_True)
    have t3: "ollama_moondream_json_text (lead @ py ''```json'' @ interior @ py ''```'' @ trail)
                = py_strip interior"
      unfolding ollama_moondream_json_text_def Let_def cut(1) using tagged
      by (simp only: cut(2) if_True)
    have bare: "py_strip (lead @ py ''```'' @ interior @ py ''```'' @ trail)
                  = py ''```'' @ interior @ py ''```''"
      using py_strip_fenced[OF ws, of "py ''``'' @ interior @ py ''``''"] by simp
    have untagged: "\<not> startswith (py ''```'' @ interior @ py ''```'') (py ''```json'')"
    proof (cases interior)
      case Nil
      then show ?thesis by (simp add: startswith_def)
    next
      case (Cons a x)
      with l json_loads_not_j[of x] have "a \<noteq> 0x6A" by auto
      with Cons show ?thesis by (simp add: startswith_def)
    qed
    have quoted: "startswith (py ''```'' @ interior @ py ''```'') (py ''`'')"
      by (simp add: startswith_def)
    have "strip_by (\<lambda>c. c \<in> set (py ''` '' @ [0x0A])) (py ''```'' @ interior @ py ''```'')
            = strip_by (\<lambda>c. c \<in> set (py ''` '' @ [0x0A])) interior"
      by (rule strip_by_surround) simp_all
    moreover have "json_loads (strip_by (\<lambda>c. c \<in> set (py ''` '' @ [0x0A])) interior) = Some v"
      by (rule json_loads_strip_by[OF _ l]) (auto simp: strippable_def isspace_def)
    ultimately have t4:
      "json_loads (ollama_moondream_json_text (lead @ py ''```'' @ interior @ py ''```'' @ trail))
         = Some v"
      unfolding ollama_moondream_json_text_def Let_def bare py_strip_chars_def
      using untagged quoted by (simp only: if_True if_False)
    show ?thesis
      unfolding t1 t2 t3
      using inner t4
      by (simp add: gradio_app_parsed_data_def ollama_Gradio_parsed_def
          ollama_moondream_parsed_data_def)
  qed
  have bare_fails:
    "gradio_app_parsed_data
        (gradio_app_json_text (lead @ py ''```'' @ interior @ py ''```'' @ trail))
        = JObj [(py ''error'', JStr (py ''Failed to parse VLM output as JSON.'')),
                (py ''raw_output'', JStr (py ''```'' @ interior @ py ''```''))]
      \<and> ollama_Gradio_parsed
        (ollama_Gradio_json_text (lead @ py ''```'' @ interior @ py ''```'' @ trail))
        = JObj [(py ''error'', JStr (py ''Failed to parse model output as JSON.'')),
                (py ''raw_output'', JStr (py ''```'' @ interior @ py ''```''))]"
    if ws: "\<forall>c\<in>set lead. isspace c" "\<forall>c\<in>set trail. isspace c"
      and l: "json_loads interior = Some v"
  proof -
    have bare: "py_strip (lead @ py ''```'' @ interior @ py ''```'' @ trail)
                  = py ''```'' @ interior @ py ''```''"
      using py_strip_fenced[OF ws, of "py ''``'' @ interior @ py ''``''"] by simp
    have untagged: "\<not> startswith (py ''```'' @ interior @ py ''```'') (py ''```json'')"
    proof (cases interior)
      case Nil
      then show ?thesis by (simp add: startswith_def)
    next
      case (Cons a x)
      with l json_loads_not_j[of x] have "a \<noteq> 0x6A" by auto
      with Cons show ?thesis by (simp add: startswith_def)
    qed
    have none: "json_loads (py ''```'' @ interior @ py ''```'') = None"
      using json_loads_not_backquote[of "py ''``'' @ interior @ py ''```''"] by simp
    have t1: "gradio_app_json_text (lead @ py ''```'' @ interior @ py ''```'' @ trail)
                = py ''```'' @ interior @ py ''```''"
      unfolding gradio_app_json_text_def Let_def bare using untagged by (simp only: if_False)
    have t2: "ollama_Gradio_json_text (lead @ py ''```'' @ interior @ py ''```'' @ trail)
                = py ''```'' @ interior @ py ''```''"
      unfolding ollama_Gradio_json_text_def Let_def bare using untagged by (simp only: if_False)
    show ?thesis
      unfolding t1 t2 gradio_app_parsed_data_def ollama_Gradio_parsed_def none by simp
  qed
  have alone:
    "new_gradio_repair decode_error ocr_text (lead @ py ''```json'' @ interior @ py ''```'' @ trail)
        = new_gradio_repair decode_error ocr_text interior
      \<and> new_gradio_repair decode_error ocr_text (lead @ py ''```'' @ interior @ py ''```'' @ trail)
        = new_gradio_repair decode_error ocr_text interior"
    if ws: "\<forall>c\<in>set lead. isspace c" "\<forall>c\<in>set trail. isspace c"
      and l: "json_loads interior = Some v" and f: "\<not> py_in (py ''```'') interior"
    using new_gradio_text_fenced[OF ws l f] new_gradio_text_unfenced[OF f]
      new_gradio_repair_text[of "lead @ py ''```json'' @ interior @ py ''```'' @ trail" interior]
      new_gradio_repair_text[of "lead @ py ''```'' @ interior @ py ''```'' @ trail" interior]
    by (simp only:)
  have object:
    "new_gradio_repair decode_error ocr_text (lead @ py ''```json'' @ interior @ py ''```'' @ trail)
        = Inr (JObj (dict_set d (py ''_raw_ocr_text'') (JStr ocr_text)))
      \<and> new_gradio_repair decode_error ocr_text (lead @ py ''```'' @ interior @ py ''```'' @ trail)
        = Inr (JObj (dict_set d (py ''_raw_ocr_text'') (JStr ocr_text)))"
    if ws: "\<forall>c\<in>set lead. isspace c" "\<forall>c\<in>set trail. isspace c"
      and l: "json_loads interior = Some (JObj d)" and f: "\<not> py_in (py ''```'') interior"
  proof -
    note o = json_loads_object_braces[OF l]
    have t: "new_gradio_braces (py_strip interior) = Inr (py_strip interior)"
      by (rule new_gradio_braces_whole[OF o])
    note n = new_gradio_text_fenced[OF ws l f, unfolded t]
    show ?thesis
      using new_gradio_repair_object[OF n(1) json_loads_py_strip[OF l]]
        new_gradio_repair_object[OF n(2) json_loads_py_strip[OF l]]
      by simp
  qed
  have literal:
    \<open>gradio_app_parsed_data (gradio_app_json_text (py ''```json'' @ [0x0A] @ py ''{"name": "Jane Doe", "title": null}'' @ [0x0A] @ py ''```'')) = JObj [(py ''name'', JStr (py ''Jane Doe'')), (py ''title'', JNull)]\<close>
    \<open>ollama_Gradio_parsed (ollama_Gradio_json_text (py ''```json'' @ [0x0A] @ py ''{"name": "Jane Doe", "title": null}'' @ [0x0A] @ py ''```'')) = JObj [(py ''name'', JStr (py ''Jane Doe'')), (py ''title'', JNull)]\<close>
    \<open>ollama_moondream_parsed_data (ollama_moondream_json_text (py ''```json'' @ [0x0A] @ py ''{"name": "Jane Doe", "title": null}'' @ [0x0A] @ py ''```'')) = JObj [(py ''name'', JStr (py ''Jane Doe'')), (py ''title'', JNull)]\<close>
    \<open>new_gradio_repair decode_error ocr_text (py ''```json'' @ [0x0A] @ py ''{"name": "Jane Doe", "title": null}'' @ [0x0A] @ py ''```'')
       = Inr (JObj [(py ''name'', JStr (py ''Jane Doe'')), (py ''title'', JNull),
                    (py ''_raw_ocr_text'', JStr ocr_text)])\<close>
    by (simp_all add: str_eval json_eval variant_eval)
  have cut:
    \<open>json_loads (py ''{"a": "x```y"}'') = Some (JObj [(py ''a'', JStr (py ''x```y''))])\<close>
    \<open>new_gradio_repair (\<lambda>t. Malformed msg) ocr_text
         (py ''```json'' @ [0x0A] @ py ''{"a": "x```y"}'' @ [0x0A] @ py ''```'')
       = Inr (JObj [(py ''error'', JStr (py ''Failed to parse JSON from LLM'')),
                    (py ''raw_ocr_text'', JStr ocr_text),
                    (py ''llm_output'', JStr (py ''{"a": "x'')),
                    (py ''parse_error'', JStr msg)])\<close>
    \<open>new_gradio_repair decode_error ocr_text
         (py ''```json'' @ [0x0A] @ py ''[{"a": 1}]'' @ [0x0A] @ py ''```'')
       = Inr (JObj [(py ''a'', JInt 1), (py ''_raw_ocr_text'', JStr ocr_text)])\<close>
    by (simp_all add: str_eval json_eval variant_eval)
  from general bare_fails alone object literal cut show ?thesis by blast
qed

theorem fenced_json_witness:
  \<open>isspace 0x20 \<and> isspace 0x0A
   \<and> json_loads ([0x0A] @ py ''{"fax": "1"}'') = Some (JObj [(py ''fax'', JStr (py ''1''))])
   \<and> \<not> py_in (py ''```'') ([0x0A] @ py ''{"fax": "1"}'')
   \<and> gradio_app_parsed_data
        (gradio_app_json_text
           ([0x20] @ py ''```json'' @ ([0x0A] @ py ''{"fax": "1"}'') @ py ''```'' @ [0x0A]))
       = JObj [(py ''fax'', JStr (py ''1''))]
   \<and> ollama_moondream_parsed_data
        (ollama_moondream_json_text
           ([0x20] @ py ''```'' @ ([0x0A] @ py ''{"fax": "1"}'') @ py ''```'' @ [0x0A]))
       = JObj [(py ''fax'', JStr (py ''1''))]
   \<and> gradio_app_parsed_data
        (gradio_app_json_text
           ([0x20] @ py ''```'' @ ([0x0A] @ py ''{"fax": "1"}'') @ py ''```'' @ [0x0A]))
       = JObj [(py ''error'', JStr (py ''Failed to parse VLM output as JSON.'')),
               (py ''raw_output'', JStr (py ''```'' @ ([0x0A] @ py ''{"fax": "1"}'') @ py ''```''))]
   \<and> new_gradio_repair (\<lambda>t. Malformed []) (py ''Jane'')
        ([0x20] @ py ''```json'' @ ([0x0A] @ py ''{"fax": "1"}'') @ py ''```'' @ [0x0A])
       = new_gradio_repair (\<lambda>t. Malformed []) (py ''Jane'') ([0x0A] @ py ''{"fax": "1"}'')
   \<and> new_gradio_repair (\<lambda>t. Malformed []) (py ''Jane'')
        ([0x20] @ py ''```'' @ ([0x0A] @ py ''{"fax": "1"}'') @ py ''```'' @ [0x0A])
       = Inr (JObj (dict_set [(py ''fax'', JStr (py ''1''))] (py ''_raw_ocr_text'')
                      (JStr (py ''Jane''))))\<close>
proof -
  have a: "\<forall>c\<in>set [0x20]. isspace c" "\<forall>c\<in>set [0x0A]. isspace c"
    by (simp_all add: isspace_def)
  have b: \<open>json_loads ([0x0A] @ py ''{"fax": "1"}'') = Some (JObj [(py ''fax'', JStr (py ''1''))])\<close>
    by (simp add: json_eval str_eval)
  have c: "isspace 0x20" "isspace 0x0A"
    by (simp_all add: isspace_def)
  have d: \<open>\<not> py_in (py ''```'') ([0x0A] @ py ''{"fax": "1"}'')\<close>
    by (simp add: str_eval)
  from fenced_json [where lead = "[0x20]" and trail = "[0x0A]"
      and interior = \<open>[0x0A] @ py ''{"fax": "1"}''\<close>
      and v = \<open>JObj [(py ''fax'', JStr (py ''1''))]\<close>
      and d = \<open>[(py ''fax'', JStr (py ''1''))]\<close>
      and decode_error = "\<lambda>t. Malformed []" and ocr_text = "py ''Jane''" and msg = "[]"] a b c d
  show ?thesis by blast
qed

theorem bare_fence_counterexample:
  "json_loads ([0x0A] @ py ''{}'' @ [0x0A]) = Some (JObj [])
   \<and> gradio_app_parsed_data
        (gradio_app_json_text (py ''```'' @ ([0x0A] @ py ''{}'' @ [0x0A]) @ py ''```''))
       = JObj [(py ''error'', JStr (py ''Failed to parse VLM output as JSON.'')),
               (py ''raw_output'', JStr (py ''```'' @ [0x0A] @ py ''{}'' @ [0x0A] @ py ''```''))]"
  by (simp add: str_eval json_eval variant_eval)

subsection \<open>C9: running the repair pass on its own output\<close>




end
